theory Spec2Isabelle
  imports Complex_Main
begin

section \<open>Data model\<close>

text \<open>
  The repository holds the same arena simulation twice: \<^verbatim>\<open>rooms/MatchRoom.js\<close> (class
  \<^verbatim>\<open>MatchRoom\<close>, method \<^verbatim>\<open>_tick\<close>) and \<^verbatim>\<open>server.js\<close> (function \<^verbatim>\<open>tick\<close> over module-level
  variables). Definitions ending in \<open>_room\<close> embed the former, definitions ending in \<open>_srv\<close>
  the latter; definitions without a suffix embed code that is textually the same in both.

  JavaScript numbers are modelled as follows. Positions are \<open>real\<close>: in \<^verbatim>\<open>MatchRoom\<close> every
  position is an integer (spawned through \<^verbatim>\<open>Math.round\<close>, moved by 4, clamped to integer
  bounds), which a double represents exactly; in \<^verbatim>\<open>server.js\<close> positions are spawned
  unrounded, and \<open>real\<close> idealises the double arithmetic there. Trail points are the results
  of \<^verbatim>\<open>Math.round\<close> and hence \<open>int\<close>. The timers count multiples of the tick period and are
  \<open>int\<close>.
\<close>

text \<open>A trail point \<^verbatim>\<open>{ x, y }\<close>.\<close>

record tpoint =
  t_x :: int
  t_y :: int

text \<open>
  A player object. \<open>p_id\<close> is the key under which the object is stored in \<^verbatim>\<open>players\<close>
  (the field \<^verbatim>\<open>id\<close>). \<open>p_killer\<close> is \<open>None\<close> while the field is unset or \<^verbatim>\<open>null\<close>.
  The fields \<^verbatim>\<open>ammo\<close> and \<^verbatim>\<open>session\<close> are never read and are left out.
\<close>

record player =
  p_id :: string
  p_name :: string
  p_color :: string
  p_x :: real
  p_y :: real
  p_dir :: string
  p_trail :: "tpoint list"
  p_alive :: bool
  p_killer :: "string option"
  p_isBot :: bool
  p_lastDecision :: int
  p_decisionCooldown :: int
  p_disconnected :: bool

text \<open>
  \<^verbatim>\<open>players\<close> is a JavaScript object used as a dictionary from id to player object. Its
  keys are distinct and \<^verbatim>\<open>for (const id in players)\<close> visits them in insertion order (the
  ids are session ids and \<^verbatim>\<open>bot_...\<close> strings, never array indices). It is modelled as the
  list of its values in that order; \<open>lookup\<close> is \<^verbatim>\<open>players[id]\<close>.
\<close>

fun lookup :: "string \<Rightarrow> player list \<Rightarrow> player option" where
  "lookup i [] = None"
| "lookup i (p # ps) = (if p_id p = i then Some p else lookup i ps)"

fun modify :: "string \<Rightarrow> (player \<Rightarrow> player) \<Rightarrow> player list \<Rightarrow> player list" where
  "modify i f [] = []"
| "modify i f (p # ps) = (if p_id p = i then f p # ps else p # modify i f ps)"

subsection \<open>Configuration constants\<close>

definition PLAY_AREA_w :: real where "PLAY_AREA_w = 1200"
definition PLAY_AREA_h :: real where "PLAY_AREA_h = 800"
definition PLAYER_SPEED :: real where "PLAYER_SPEED = 4"
definition TICK_MS :: int where "TICK_MS = 1000 div 20"
definition TRAIL_KEEP_room :: nat where "TRAIL_KEEP_room = 800"
definition TRAIL_KEEP_srv :: nat where "TRAIL_KEEP_srv = 400"
definition CELL :: real where "CELL = 6"

definition cardinals :: "string list" where
  "cardinals = [''up'', ''down'', ''left'', ''right'']"

subsection \<open>Random numbers\<close>

text \<open>
  \<^verbatim>\<open>Math.random()\<close> is an input of the model: every function that draws takes the drawn
  value \<open>u\<close> (with \<open>0 \<le> u < 1\<close>) as an argument.
  \<^verbatim>\<open>function rand(min, max){ return Math.random()*(max-min)+min; }\<close>
  \<^verbatim>\<open>function randInt(min, max){ return Math.floor(rand(min,max+1)); }\<close>
\<close>

definition rand :: "real \<Rightarrow> real \<Rightarrow> real \<Rightarrow> real" where
  "rand u mn mx = u * (mx - mn) + mn"

definition randInt :: "real \<Rightarrow> real \<Rightarrow> real \<Rightarrow> int" where
  "randInt u mn mx = \<lfloor>rand u mn (mx + 1)\<rfloor>"

text \<open>
  \<^verbatim>\<open>['up','down','left','right'][k]\<close>. An index outside the array yields \<^verbatim>\<open>undefined\<close> in
  JavaScript; it is modelled by the empty string, which like \<^verbatim>\<open>undefined\<close> is falsy and
  equal to no cardinal. (With \<open>0 \<le> u < 1\<close> the index \<open>randInt u 0 3\<close> is never outside.)
\<close>

definition cardinal_at :: "int \<Rightarrow> string" where
  "cardinal_at k = (if 0 \<le> k \<and> k < 4 then cardinals ! nat k else [])"

section \<open>Movement, shared by both variants\<close>

text \<open>
  \<^verbatim>\<open>if (p.dir === 'up') p.y -= PLAYER_SPEED;\<close>
  \<^verbatim>\<open>if (p.dir === 'down') p.y += PLAYER_SPEED;\<close>
  \<^verbatim>\<open>if (p.dir === 'left') p.x -= PLAYER_SPEED;\<close>
  \<^verbatim>\<open>if (p.dir === 'right') p.x += PLAYER_SPEED;\<close>
\<close>

definition move_by_dir :: "player \<Rightarrow> player" where
  "move_by_dir p =
    (let p1 = (if p_dir p = ''up'' then p\<lparr>p_y := p_y p - PLAYER_SPEED\<rparr> else p);
         p2 = (if p_dir p1 = ''down'' then p1\<lparr>p_y := p_y p1 + PLAYER_SPEED\<rparr> else p1);
         p3 = (if p_dir p2 = ''left'' then p2\<lparr>p_x := p_x p2 - PLAYER_SPEED\<rparr> else p2);
         p4 = (if p_dir p3 = ''right'' then p3\<lparr>p_x := p_x p3 + PLAYER_SPEED\<rparr> else p3)
     in p4)"

text \<open>
  \<^verbatim>\<open>MatchRoom\<close>: \<^verbatim>\<open>p.x = Math.max(0, Math.min(PLAY_AREA.w, p.x));\<close> and the same for \<^verbatim>\<open>y\<close>.
\<close>

definition clamp_room :: "player \<Rightarrow> player" where
  "clamp_room p =
    (let p1 = p\<lparr>p_x := max 0 (min PLAY_AREA_w (p_x p))\<rparr>
     in p1\<lparr>p_y := max 0 (min PLAY_AREA_h (p_y p1))\<rparr>)"

text \<open>
  \<^verbatim>\<open>server.js\<close>: \<^verbatim>\<open>if(p.x < 0) p.x = 0; if(p.x > PLAY_AREA.w) p.x = PLAY_AREA.w;\<close>
  \<^verbatim>\<open>if(p.y < 0) p.y = 0; if(p.y > PLAY_AREA.h) p.y = PLAY_AREA.h;\<close>
\<close>

definition clamp_srv :: "player \<Rightarrow> player" where
  "clamp_srv p =
    (let p1 = (if p_x p < 0 then p\<lparr>p_x := 0\<rparr> else p);
         p2 = (if p_x p1 > PLAY_AREA_w then p1\<lparr>p_x := PLAY_AREA_w\<rparr> else p1);
         p3 = (if p_y p2 < 0 then p2\<lparr>p_y := 0\<rparr> else p2);
         p4 = (if p_y p3 > PLAY_AREA_h then p3\<lparr>p_y := PLAY_AREA_h\<rparr> else p3)
     in p4)"

text \<open>
  \<^verbatim>\<open>p.trail.push({ x: Math.round(p.x), y: Math.round(p.y) });\<close>
  \<^verbatim>\<open>if (p.trail.length > TRAIL_KEEP) p.trail.shift();\<close>
  \<^verbatim>\<open>Math.round\<close> rounds halves upwards, as \<^const>\<open>round\<close> does.
\<close>

definition push_trail :: "nat \<Rightarrow> player \<Rightarrow> player" where
  "push_trail keep p =
    (let p1 = p\<lparr>p_trail := p_trail p @ [\<lparr>t_x = round (p_x p), t_y = round (p_y p)\<rparr>]\<rparr>
     in if length (p_trail p1) > keep then p1\<lparr>p_trail := tl (p_trail p1)\<rparr> else p1)"


text \<open>
  The loops \<^verbatim>\<open>for (const id in players) { const p = players[id]; ... }\<close> mutate the player
  objects in place, so the body run for one player sees the players before it as already
  updated. \<open>for_each body acc todo\<close> runs the body on the players of \<open>todo\<close> in order;
  \<open>acc\<close> holds the players already visited and \<open>acc @ todo\<close> is the whole dictionary as
  the body sees it.
\<close>

fun for_each :: "(player list \<Rightarrow> player \<Rightarrow> player) \<Rightarrow> player list \<Rightarrow> player list \<Rightarrow> player list" where
  "for_each body acc [] = acc"
| "for_each body acc (p # rest) = for_each body (acc @ [body (acc @ p # rest) p]) rest"

type_synonym draws = "string \<Rightarrow> nat \<Rightarrow> real"
  \<comment> \<open>\<open>d i k\<close>: the value of the \<open>k\<close>-th call of \<^verbatim>\<open>Math.random()\<close> made for player \<open>i\<close> in a tick\<close>

section \<open>\<^verbatim>\<open>MatchRoom._tick\<close>: bot decision and movement\<close>

text \<open>
  The projection of one step along a candidate direction:
  \<^verbatim>\<open>const nx = p.x + (d==='left'?-PLAYER_SPEED:d==='right'?PLAYER_SPEED:0);\<close>
  \<^verbatim>\<open>const ny = p.y + (d==='up'?-PLAYER_SPEED:d==='down'?PLAYER_SPEED:0);\<close>
\<close>

definition step_dx :: "string \<Rightarrow> real" where
  "step_dx d = (if d = ''left'' then - PLAYER_SPEED else if d = ''right'' then PLAYER_SPEED else 0)"

definition step_dy :: "string \<Rightarrow> real" where
  "step_dy d = (if d = ''up'' then - PLAYER_SPEED else if d = ''down'' then PLAYER_SPEED else 0)"

text \<open>
  The scan of one trail, from index \<open>ti\<close> on; \<open>own\<close> is \<^verbatim>\<open>otherId === id\<close>. The result is
  the value of \<^verbatim>\<open>danger\<close> after the loop.
  \<^verbatim>\<open>for (let ti = 0; ti<other.trail.length; ti+=4) {\<close>
  \<^verbatim>\<open>  const t = other.trail[ti];\<close>
  \<^verbatim>\<open>  if (!t) continue;\<close> (a trail point is an object, never falsy)
  \<^verbatim>\<open>  if (Math.abs(nx - t.x) < 8 && Math.abs(ny - t.y) < 8) {\<close>
  \<^verbatim>\<open>    if (otherId === id && ti >= Math.max(0, other.trail.length - 10)) continue;\<close>
  \<^verbatim>\<open>    danger = true; break; } }\<close>
\<close>

function trail_danger :: "real \<Rightarrow> real \<Rightarrow> bool \<Rightarrow> tpoint list \<Rightarrow> nat \<Rightarrow> bool" where
  "trail_danger nx ny own tr ti =
    (if ti < length tr then
       (if \<bar>nx - of_int (t_x (tr ! ti))\<bar> < 8 \<and> \<bar>ny - of_int (t_y (tr ! ti))\<bar> < 8 then
          (if own \<and> int ti \<ge> max 0 (int (length tr) - 10)
           then trail_danger nx ny own tr (ti + 4)
           else True)
        else trail_danger nx ny own tr (ti + 4))
     else False)"
  by pat_completeness auto
termination
  by (relation "measure (\<lambda>(nx, ny, own, tr, ti). length tr - ti)") auto

declare trail_danger.simps [simp del]

text \<open>
  \<^verbatim>\<open>for (const otherId in this.players) { const other = this.players[otherId];\<close>
  \<^verbatim>\<open>  if (!other || !other.trail) continue;\<close> (every player has a trail array)
  \<^verbatim>\<open>  ... if (danger) break; }\<close>
\<close>

fun players_danger :: "real \<Rightarrow> real \<Rightarrow> string \<Rightarrow> player list \<Rightarrow> bool" where
  "players_danger nx ny i [] = False"
| "players_danger nx ny i (other # rest) =
    (if trail_danger nx ny (p_id other = i) (p_trail other) 0 then True
     else players_danger nx ny i rest)"

text \<open>
  \<^verbatim>\<open>let chosen = null; for (let d of directions) { ... if (!danger) { chosen = d; break; } }\<close>
  The result is \<^verbatim>\<open>chosen\<close>, \<open>None\<close> for \<^verbatim>\<open>null\<close>.
\<close>

fun choose_dir :: "player list \<Rightarrow> player \<Rightarrow> string list \<Rightarrow> string option" where
  "choose_dir all p [] = None"
| "choose_dir all p (d # ds) =
    (let nx = p_x p + step_dx d; ny = p_y p + step_dy d in
     if nx < 0 \<or> nx > PLAY_AREA_w \<or> ny < 0 \<or> ny > PLAY_AREA_h then choose_dir all p ds
     else if players_danger nx ny (p_id p) all then choose_dir all p ds
     else Some d)"

text \<open>
  The block \<^verbatim>\<open>if (p.isBot) { p.lastDecision += delta; if (p.lastDecision > p.decisionCooldown) { ... } }\<close>.
  \<^verbatim>\<open>directions.unshift(p.dir)\<close> puts the current heading in front of the four cardinals,
  and \<^verbatim>\<open>if (chosen) p.dir = chosen;\<close> assigns a truthy (non-empty) choice.
\<close>

definition directions_room :: "player \<Rightarrow> string list" where
  "directions_room p = p_dir p # cardinals"

definition bot_decide_room :: "int \<Rightarrow> real \<Rightarrow> player list \<Rightarrow> player \<Rightarrow> player" where
  "bot_decide_room delta u all p =
    (let p1 = p\<lparr>p_lastDecision := p_lastDecision p + delta\<rparr> in
     if p_lastDecision p1 > p_decisionCooldown p1 then
       (let p2 = p1\<lparr>p_lastDecision := 0, p_decisionCooldown := randInt u 200 700\<rparr> in
        case choose_dir all p2 (directions_room p2) of
          None \<Rightarrow> p2
        | Some d \<Rightarrow> if d \<noteq> [] then p2\<lparr>p_dir := d\<rparr> else p2)
     else p1)"

text \<open>The body of the first loop of \<^verbatim>\<open>_tick\<close> for one player.\<close>

definition move_player_room :: "int \<Rightarrow> draws \<Rightarrow> player list \<Rightarrow> player \<Rightarrow> player" where
  "move_player_room delta d all p =
    (if \<not> p_alive p then p
     else
       (let p1 = (if p_isBot p then bot_decide_room delta (d (p_id p) 0) all p else p)
        in push_trail TRAIL_KEEP_room (clamp_room (move_by_dir p1))))"

section \<open>\<^verbatim>\<open>MatchRoom._tick\<close>: the trail index and the collisions\<close>

text \<open>An entry of the index: \<^verbatim>\<open>{ ownerId: id, idx: i, x: pt.x, y: pt.y }\<close>.\<close>

record entry =
  e_ownerId :: string
  e_idx :: nat
  e_x :: int
  e_y :: int

text \<open>
  The key \<^verbatim>\<open>`${Math.floor(x / CELL)}|${Math.floor(y / CELL)}`\<close>. The string is determined
  by the two integers and determines them, so the pair stands for it.
\<close>

definition cell_key :: "real \<Rightarrow> real \<Rightarrow> int \<times> int" where
  "cell_key vx vy = (\<lfloor>vx / CELL\<rfloor>, \<lfloor>vy / CELL\<rfloor>)"

type_synonym occupancy = "int \<times> int \<rightharpoonup> entry list"

text \<open>
  \<^verbatim>\<open>if (!occupancy.has(key)) occupancy.set(key, []);\<close>
  \<^verbatim>\<open>occupancy.get(key).push(e);\<close>
\<close>

definition occupancy_push :: "occupancy \<Rightarrow> int \<times> int \<Rightarrow> entry \<Rightarrow> occupancy" where
  "occupancy_push occ key e =
    (let occ1 = (if occ key = None then occ(key \<mapsto> []) else occ)
     in occ1(key \<mapsto> the (occ1 key) @ [e]))"

text \<open>
  \<^verbatim>\<open>for (let i=0;i<p.trail.length;i++){ const pt = p.trail[i]; ... }\<close>, from index \<open>i\<close> on
  with the points \<open>pts\<close> still to index.
\<close>

fun index_trail :: "occupancy \<Rightarrow> string \<Rightarrow> nat \<Rightarrow> tpoint list \<Rightarrow> occupancy" where
  "index_trail occ i k [] = occ"
| "index_trail occ i k (pt # pts) =
    index_trail
      (occupancy_push occ (cell_key (of_int (t_x pt)) (of_int (t_y pt)))
         \<lparr>e_ownerId = i, e_idx = k, e_x = t_x pt, e_y = t_y pt\<rparr>)
      i (Suc k) pts"

fun build_occupancy :: "occupancy \<Rightarrow> player list \<Rightarrow> occupancy" where
  "build_occupancy occ [] = occ"
| "build_occupancy occ (p # ps) = build_occupancy (index_trail occ (p_id p) 0 (p_trail p)) ps"

text \<open>
  The scan of a list of entries for the player \<open>i\<close> at \<open>(vx, vy)\<close> whose trail has \<open>len\<close>
  points; the loop is the same in both variants. The result is the entry at which the loop
  breaks, \<open>None\<close> when it runs to the end.
  \<^verbatim>\<open>for (const t of bucket) {\<close>
  \<^verbatim>\<open>  if (t.ownerId === id) {\<close>
  \<^verbatim>\<open>    const lastSafe = Math.max(0, this.players[id].trail.length - 10);\<close>
  \<^verbatim>\<open>    if (t.idx >= lastSafe) continue; }\<close>
  \<^verbatim>\<open>  if (Math.abs(p.x - t.x) < 6 && Math.abs(p.y - t.y) < 6) { ...; break; } }\<close>
\<close>

fun scan_hits :: "string \<Rightarrow> real \<Rightarrow> real \<Rightarrow> nat \<Rightarrow> entry list \<Rightarrow> entry option" where
  "scan_hits i vx vy len [] = None"
| "scan_hits i vx vy len (t # ts) =
    (if e_ownerId t = i \<and> int (e_idx t) \<ge> max 0 (int len - 10) then scan_hits i vx vy len ts
     else if \<bar>vx - of_int (e_x t)\<bar> < 6 \<and> \<bar>vy - of_int (e_y t)\<bar> < 6 then Some t
     else scan_hits i vx vy len ts)"

text \<open>
  The hit: \<^verbatim>\<open>p.alive = false;\<close>
  \<^verbatim>\<open>p.killer = this.players[t.ownerId] ? this.players[t.ownerId].name : null;\<close>
\<close>

definition kill :: "player list \<Rightarrow> entry \<Rightarrow> player \<Rightarrow> player" where
  "kill all t p =
    p\<lparr>p_alive := False,
      p_killer := (case lookup (e_ownerId t) all of Some ow \<Rightarrow> Some (p_name ow) | None \<Rightarrow> None)\<rparr>"

text \<open>The body of the collision loop of \<^verbatim>\<open>_tick\<close> for one player.\<close>

definition collide_room :: "occupancy \<Rightarrow> player list \<Rightarrow> player \<Rightarrow> player" where
  "collide_room occ all p =
    (if \<not> p_alive p then p
     else case occ (cell_key (p_x p) (p_y p)) of
       None \<Rightarrow> p
     | Some bucket \<Rightarrow>
        (case scan_hits (p_id p) (p_x p) (p_y p) (length (p_trail p)) bucket of
           None \<Rightarrow> p
         | Some t \<Rightarrow> kill all t p))"

text \<open>The three loops of \<^verbatim>\<open>_tick\<close>: movement, index, collisions.\<close>

definition simulate_room :: "int \<Rightarrow> draws \<Rightarrow> player list \<Rightarrow> player list" where
  "simulate_room delta d ps =
    (let ps1 = for_each (move_player_room delta d) [] ps;
         occ = build_occupancy Map.empty ps1
     in for_each (collide_room occ) [] ps1)"

section \<open>\<^verbatim>\<open>MatchRoom\<close>: snapshots, end of match, events\<close>

text \<open>
  One player of \<^verbatim>\<open>_exportState()\<close>:
  \<^verbatim>\<open>{ id, name, color, x: Math.round(p.x), y: Math.round(p.y), dir, alive,\<close>
  \<^verbatim>\<open>  trail: p.trail.slice(-120), isBot }\<close>
\<close>

record pview =
  v_id :: string
  v_name :: string
  v_color :: string
  v_x :: int
  v_y :: int
  v_dir :: string
  v_alive :: bool
  v_trail :: "tpoint list"
  v_isBot :: bool

definition export_player :: "nat \<Rightarrow> player \<Rightarrow> pview" where
  "export_player n p =
    \<lparr>v_id = p_id p, v_name = p_name p, v_color = p_color p, v_x = round (p_x p),
     v_y = round (p_y p), v_dir = p_dir p, v_alive = p_alive p,
     v_trail = drop (length (p_trail p) - n) (p_trail p), v_isBot = p_isBot p\<rparr>"

definition exportState :: "player list \<Rightarrow> pview list" where
  "exportState ps = map (export_player 120) ps"

text \<open>A broadcast \<^verbatim>\<open>"state"\<close> message \<^verbatim>\<open>{ players, ended }\<close>.\<close>

record snapshot =
  s_players :: "pview list"
  s_ended :: bool

text \<open>
  The room. \<open>tickHandler\<close> tells whether the field holds the handle of an interval (it is
  set by \<^verbatim>\<open>startMatch\<close> and never reset); \<open>interval_active\<close> tells whether the clock still
  runs that interval. \<open>broadcasts\<close> is the sequence of \<^verbatim>\<open>"state"\<close> messages sent so far,
  \<open>dispose_scheduled\<close> the pending \<^verbatim>\<open>clock.setTimeout(() => this.disconnect(), 3000)\<close>.
\<close>

record room =
  players :: "player list"
  tickHandler :: bool
  interval_active :: bool
  roomLocked :: bool
  dispose_scheduled :: bool
  broadcasts :: "snapshot list"

text \<open>
  The end of \<^verbatim>\<open>_tick\<close>:
  \<^verbatim>\<open>if (alivePlayers.length <= 1) {\<close>
  \<^verbatim>\<open>  this.broadcast("state", { players: this._exportState(), ended: true });\<close>
  \<^verbatim>\<open>  if (this.tickHandler) this.clock.clearInterval(this.tickHandler);\<close>
  \<^verbatim>\<open>  this.roomLocked = true;\<close>
  \<^verbatim>\<open>  this.clock.setTimeout(() => this.disconnect(), 3000);\<close>
  \<^verbatim>\<open>  return; }\<close>
  \<^verbatim>\<open>this.broadcast("state", { players: this._exportState(), ended: false });\<close>
  \<^verbatim>\<open>this.clock\<close> is the clock of a colyseus \<^verbatim>\<open>Room\<close>. Its methods are \<^verbatim>\<open>setInterval\<close>,
  \<^verbatim>\<open>setTimeout\<close> and \<^verbatim>\<open>clear\<close> (an interval is ended by \<^verbatim>\<open>clear()\<close> on its handle); it has
  no \<^verbatim>\<open>clearInterval\<close>. With a handle in \<^verbatim>\<open>tickHandler\<close> the call
  \<^verbatim>\<open>this.clock.clearInterval(...)\<close> is therefore a call of \<^verbatim>\<open>undefined\<close> and throws a
  \<^verbatim>\<open>TypeError\<close>: the two statements after it are not reached and the interval stays as
  it is. \<open>tick_room_call\<close> gives the exception with which the call ends, if any, and the
  room as the call leaves it (the players moved and the message sent before the
  exception stay so); \<open>tick_room\<close> is that room.
\<close>

datatype js_error = TypeError

definition tick_room_call :: "int \<Rightarrow> draws \<Rightarrow> room \<Rightarrow> js_error option \<times> room" where
  "tick_room_call delta d s =
    (let ps = simulate_room delta d (players s);
         alivePlayers = filter p_alive ps
     in if length alivePlayers \<le> 1 then
          (let s1 = s\<lparr>players := ps,
                     broadcasts := broadcasts s @ [\<lparr>s_players = exportState ps, s_ended = True\<rparr>]\<rparr>
           in if tickHandler s then (Some TypeError, s1)
              else (None, s1\<lparr>roomLocked := True, dispose_scheduled := True\<rparr>))
        else
          (None,
           s\<lparr>players := ps,
             broadcasts := broadcasts s @ [\<lparr>s_players = exportState ps, s_ended = False\<rparr>]\<rparr>))"

definition tick_room :: "int \<Rightarrow> draws \<Rightarrow> room \<Rightarrow> room" where
  "tick_room delta d s = snd (tick_room_call delta d s)"

text \<open>
  \<^verbatim>\<open>onLeave\<close>: \<^verbatim>\<open>const p = this.players[client.sessionId];\<close>
  \<^verbatim>\<open>if (p) { p.alive = false; p.disconnected = true; }\<close>
\<close>

definition onLeave :: "string \<Rightarrow> room \<Rightarrow> room" where
  "onLeave i s =
    s\<lparr>players := modify i (\<lambda>p. p\<lparr>p_alive := False, p_disconnected := True\<rparr>) (players s)\<rparr>"

text \<open>
  What happens to a room while a match runs: the clock fires the interval set by
  \<^verbatim>\<open>this.clock.setInterval(() => this._tick(TICK_MS), TICK_MS)\<close>, which calls \<^verbatim>\<open>_tick\<close> as
  long as the interval is active, or a client leaves. (The class registers no handler
  for client messages.) An exception thrown by \<^verbatim>\<open>_tick\<close> does not end the interval: the
  clock drops an interval only when it has been cleared.
\<close>

datatype room_event = Timer_room draws | Leave_room string

fun step_room :: "room_event \<Rightarrow> room \<Rightarrow> room" where
  "step_room (Timer_room d) s = (if interval_active s then tick_room TICK_MS d s else s)"
| "step_room (Leave_room i) s = onLeave i s"

fun run_room :: "room_event list \<Rightarrow> room \<Rightarrow> room" where
  "run_room [] s = s"
| "run_room (e # es) s = run_room es (step_room e s)"

section \<open>\<^verbatim>\<open>server.js\<close>: \<^verbatim>\<open>tick\<close>\<close>

text \<open>
  The bot block of \<^verbatim>\<open>tick\<close>; \<open>u0\<close>, \<open>u1\<close>, \<open>u2\<close> are the values of the three calls of
  \<^verbatim>\<open>Math.random()\<close> in the order of the source.
  \<^verbatim>\<open>p.lastDecision += TICK_MS;\<close>
  \<^verbatim>\<open>if(p.lastDecision > p.decisionCooldown){\<close>
  \<^verbatim>\<open>  p.lastDecision = 0; p.decisionCooldown = randInt(200,700);\<close>
  \<^verbatim>\<open>  const r = Math.random();\<close>
  \<^verbatim>\<open>  if(r < 0.7){ p.dir = ['up','down','left','right'][randInt(0,3)]; }\<close>
  \<^verbatim>\<open>  else { p.dir = (p.x > PLAY_AREA.w/2 ? 'left' : 'right'); } }\<close>
\<close>

definition bot_decide_srv :: "real \<Rightarrow> real \<Rightarrow> real \<Rightarrow> player \<Rightarrow> player" where
  "bot_decide_srv u0 u1 u2 p =
    (let p1 = p\<lparr>p_lastDecision := p_lastDecision p + TICK_MS\<rparr> in
     if p_lastDecision p1 > p_decisionCooldown p1 then
       (let p2 = p1\<lparr>p_lastDecision := 0, p_decisionCooldown := randInt u0 200 700\<rparr>;
            r = u1
        in if r < 7 / 10 then p2\<lparr>p_dir := cardinal_at (randInt u2 0 3)\<rparr>
           else p2\<lparr>p_dir := (if p_x p2 > PLAY_AREA_w / 2 then ''left'' else ''right'')\<rparr>)
     else p1)"

text \<open>The body of the first loop of \<^verbatim>\<open>tick\<close> for one player.\<close>

definition move_player_srv :: "draws \<Rightarrow> player list \<Rightarrow> player \<Rightarrow> player" where
  "move_player_srv d all p =
    (if \<not> p_alive p then p
     else
       (let p1 = (if p_isBot p
                  then bot_decide_srv (d (p_id p) 0) (d (p_id p) 1) (d (p_id p) 2) p else p)
        in push_trail TRAIL_KEEP_srv (clamp_srv (move_by_dir p1))))"

text \<open>
  \<^verbatim>\<open>p.trail.forEach((pt, idx) => { allTrails.push({ ownerId: id, x: pt.x, y: pt.y, idx }); });\<close>
  for the points \<open>pts\<close> from index \<open>k\<close> on, and the loop over the players around it.
\<close>

fun trail_entries :: "string \<Rightarrow> nat \<Rightarrow> tpoint list \<Rightarrow> entry list" where
  "trail_entries i k [] = []"
| "trail_entries i k (pt # pts) =
    \<lparr>e_ownerId = i, e_idx = k, e_x = t_x pt, e_y = t_y pt\<rparr> # trail_entries i (Suc k) pts"

fun allTrails :: "player list \<Rightarrow> entry list" where
  "allTrails [] = []"
| "allTrails (p # ps) = trail_entries (p_id p) 0 (p_trail p) @ allTrails ps"

text \<open>
  The body of the collision loop of \<^verbatim>\<open>tick\<close> for one player: the scan of all trail points,
  then
  \<^verbatim>\<open>if(p.x <= 0 || p.x >= PLAY_AREA.w || p.y <= 0 || p.y >= PLAY_AREA.h){ p.alive = false; }\<close>
\<close>

definition out_of_bounds :: "player \<Rightarrow> bool" where
  "out_of_bounds p \<longleftrightarrow> p_x p \<le> 0 \<or> p_x p \<ge> PLAY_AREA_w \<or> p_y p \<le> 0 \<or> p_y p \<ge> PLAY_AREA_h"

definition collide_srv :: "entry list \<Rightarrow> player list \<Rightarrow> player \<Rightarrow> player" where
  "collide_srv trails all p =
    (if \<not> p_alive p then p
     else
       (let p1 = (case scan_hits (p_id p) (p_x p) (p_y p) (length (p_trail p)) trails of
                    None \<Rightarrow> p
                  | Some t \<Rightarrow> kill all t p)
        in if out_of_bounds p1 then p1\<lparr>p_alive := False\<rparr> else p1))"

definition simulate_srv :: "draws \<Rightarrow> player list \<Rightarrow> player list" where
  "simulate_srv d ps =
    (let ps1 = for_each (move_player_srv d) [] ps;
         trails = allTrails ps1
     in for_each (collide_srv trails) [] ps1)"

text \<open>
  The non-terminal message carries \<^verbatim>\<open>outPlayers\<close>, one such object per player
  (\<^verbatim>\<open>trail: p.trail.slice(-60)\<close>, no \<^verbatim>\<open>isBot\<close>); the terminal message carries the
  \<^verbatim>\<open>players\<close> dictionary itself.
\<close>

record oview =
  o_id :: string
  o_name :: string
  o_color :: string
  o_x :: int
  o_y :: int
  o_dir :: string
  o_alive :: bool
  o_trail :: "tpoint list"

definition out_player :: "player \<Rightarrow> oview" where
  "out_player p =
    \<lparr>o_id = p_id p, o_name = p_name p, o_color = p_color p, o_x = round (p_x p),
     o_y = round (p_y p), o_dir = p_dir p, o_alive = p_alive p,
     o_trail = drop (length (p_trail p) - 60) (p_trail p)\<rparr>"

datatype payload = Players "player list" | OutPlayers "oview list"

record message =
  m_players :: payload
  m_ended :: bool

text \<open>
  The module-level variables \<^verbatim>\<open>queue\<close>, \<^verbatim>\<open>players\<close>, \<^verbatim>\<open>playing\<close> and \<^verbatim>\<open>gameInterval\<close>
  (\<open>True\<close> while it holds an interval, \<open>False\<close> for \<^verbatim>\<open>null\<close>), and the \<^verbatim>\<open>'state'\<close>
  messages emitted to the room \<^verbatim>\<open>'match'\<close> so far.
\<close>

record server =
  g_queue :: "string list"
  g_players :: "player list"
  g_playing :: bool
  gameInterval :: bool
  emitted :: "message list"

text \<open>\<^verbatim>\<open>id.startsWith('bot_')\<close>\<close>

definition is_bot_id :: "string \<Rightarrow> bool" where
  "is_bot_id i \<longleftrightarrow> take 4 i = ''bot_''"

definition tick_srv :: "draws \<Rightarrow> server \<Rightarrow> server" where
  "tick_srv d s =
    (let ps = simulate_srv d (g_players s);
         aliveCount = length (filter p_alive ps)
     in if aliveCount \<le> 1 then
          s\<lparr>emitted := emitted s @ [\<lparr>m_players = Players ps, m_ended = True\<rparr>],
            gameInterval := False,
            g_players := filter (\<lambda>p. \<not> is_bot_id (p_id p)) ps,
            g_playing := False\<rparr>
        else
          s\<lparr>g_players := ps,
            emitted := emitted s @ [\<lparr>m_players = OutPlayers (map out_player ps), m_ended = False\<rparr>]\<rparr>)"

text \<open>
  \<^verbatim>\<open>socket.on('turn', ({dir}) => {\<close>
  \<^verbatim>\<open>  if(players[socket.id] && players[socket.id].alive){\<close>
  \<^verbatim>\<open>    if(['up','down','left','right'].includes(dir)) players[socket.id].dir = dir; } });\<close>
  \<open>i\<close> is \<^verbatim>\<open>socket.id\<close>, \<open>dir\<close> the direction the message carries.
\<close>

definition on_turn :: "string \<Rightarrow> string \<Rightarrow> server \<Rightarrow> server" where
  "on_turn i dir s =
    (case lookup i (g_players s) of
       None \<Rightarrow> s
     | Some p \<Rightarrow>
        if p_alive p then
          (if dir \<in> set cardinals
           then s\<lparr>g_players := modify i (\<lambda>q. q\<lparr>p_dir := dir\<rparr>) (g_players s)\<rparr>
           else s)
        else s)"

text \<open>
  \<^verbatim>\<open>socket.on('disconnect', () => { queue = queue.filter(id=>id!==socket.id);\<close>
  \<^verbatim>\<open>  if(players[socket.id]){ players[socket.id].alive = false;\<close>
  \<^verbatim>\<open>    players[socket.id].disconnected = true; } });\<close>
\<close>

definition on_disconnect :: "string \<Rightarrow> server \<Rightarrow> server" where
  "on_disconnect i s =
    s\<lparr>g_queue := filter (\<lambda>j. j \<noteq> i) (g_queue s),
      g_players := modify i (\<lambda>p. p\<lparr>p_alive := False, p_disconnected := True\<rparr>) (g_players s)\<rparr>"

text \<open>
  What happens to the server while a match runs: the interval set by
  \<^verbatim>\<open>gameInterval = setInterval(tick, TICK_MS)\<close> fires and calls \<^verbatim>\<open>tick\<close> as long as it has
  not been cleared, a \<^verbatim>\<open>'turn'\<close> message arrives, or a socket disconnects.
\<close>

datatype srv_event = Timer_srv draws | Turn_srv string string | Disconnect_srv string

fun step_srv :: "srv_event \<Rightarrow> server \<Rightarrow> server" where
  "step_srv (Timer_srv d) s = (if gameInterval s then tick_srv d s else s)"
| "step_srv (Turn_srv i dir) s = on_turn i dir s"
| "step_srv (Disconnect_srv i) s = on_disconnect i s"

fun run_srv :: "srv_event list \<Rightarrow> server \<Rightarrow> server" where
  "run_srv [] s = s"
| "run_srv (e # es) s = run_srv es (step_srv e s)"

section \<open>Predicates of the specification and sample data\<close>

text \<open>The play-area rectangle: \<open>0 \<le> x \<le> 1200\<close> and \<open>0 \<le> y \<le> 800\<close>.\<close>

definition in_play_area :: "player \<Rightarrow> bool" where
  "in_play_area p \<longleftrightarrow> 0 \<le> p_x p \<and> p_x p \<le> 1200 \<and> 0 \<le> p_y p \<and> p_y p \<le> 800"

text \<open>
  A player as \<^verbatim>\<open>onJoin\<close>, \<^verbatim>\<open>startMatch\<close> and \<^verbatim>\<open>makePlayerObj\<close> build it (empty trail, alive,
  decision timer at 0), with the drawn position, heading and cooldown as arguments; used
  for the concrete runs below.
\<close>

definition new_player :: "string \<Rightarrow> bool \<Rightarrow> real \<Rightarrow> real \<Rightarrow> string \<Rightarrow> int \<Rightarrow> player" where
  "new_player i b vx vy dir cooldown =
    \<lparr>p_id = i, p_name = i, p_color = ''cyan'', p_x = vx, p_y = vy, p_dir = dir, p_trail = [],
     p_alive = True, p_killer = None, p_isBot = b, p_lastDecision = 0,
     p_decisionCooldown = cooldown, p_disconnected = False\<rparr>"

definition no_draws :: draws where
  "no_draws = (\<lambda>i k. 0)"

definition edge_player :: player where
  "edge_player = new_player ''a'' False 1198 2 ''right'' 300"

definition dead_player :: player where
  "dead_player = (new_player ''b'' False 500 400 ''up'' 300)
     \<lparr>p_trail := [\<lparr>t_x = 500, t_y = 400\<rparr>], p_alive := False\<rparr>"

text \<open>A room and a server in the middle of a match, with the given players.\<close>

definition sample_room :: "player list \<Rightarrow> room" where
  "sample_room ps = \<lparr>players = ps, tickHandler = True, interval_active = True, roomLocked = False,
     dispose_scheduled = False, broadcasts = []\<rparr>"

definition sample_server :: "player list \<Rightarrow> server" where
  "sample_server ps = \<lparr>g_queue = [], g_players = ps, g_playing = True, gameInterval = True,
     emitted = []\<rparr>"

text \<open>
  The danger check as the claims word it: some trail point at an index divisible by 4
  lies within the 8-unit box of the projected position, the bot's own last 10 points
  excepted.
\<close>

definition near8 :: "real \<Rightarrow> real \<Rightarrow> tpoint \<Rightarrow> bool" where
  "near8 nx ny t \<longleftrightarrow> \<bar>nx - of_int (t_x t)\<bar> < 8 \<and> \<bar>ny - of_int (t_y t)\<bar> < 8"

definition dangerous_spec :: "real \<Rightarrow> real \<Rightarrow> string \<Rightarrow> player list \<Rightarrow> bool" where
  "dangerous_spec nx ny i ps \<longleftrightarrow>
    list_ex (\<lambda>other.
      list_ex (\<lambda>j. 4 dvd j \<and> near8 nx ny (p_trail other ! j)
                 \<and> \<not> (p_id other = i \<and> length (p_trail other) - 10 \<le> j))
        [0..<length (p_trail other)]) ps"

text \<open>
  Two dictionaries that differ at most in trail points at indices not divisible by 4.
\<close>

definition same_sampled :: "player list \<Rightarrow> player list \<Rightarrow> bool" where
  "same_sampled ps qs \<longleftrightarrow>
    list_all2 (\<lambda>p q. p_id p = p_id q \<and> length (p_trail p) = length (p_trail q)
       \<and> list_all (\<lambda>j. 4 dvd j \<longrightarrow> p_trail p ! j = p_trail q ! j) [0..<length (p_trail p)])
      ps qs"

text \<open>
  The re-decision as the claims word it: the current heading first, then the remaining
  cardinals in their fixed order; the first candidate whose projected position stays
  inside the play area and has no dangerous trail match; the current heading if there is
  none.
\<close>

definition candidates_spec :: "player \<Rightarrow> string list" where
  "candidates_spec p = p_dir p # remove1 (p_dir p) cardinals"

definition candidate_ok :: "player list \<Rightarrow> player \<Rightarrow> string \<Rightarrow> bool" where
  "candidate_ok all p d \<longleftrightarrow>
    0 \<le> p_x p + step_dx d \<and> p_x p + step_dx d \<le> 1200
    \<and> 0 \<le> p_y p + step_dy d \<and> p_y p + step_dy d \<le> 800
    \<and> \<not> players_danger (p_x p + step_dx d) (p_y p + step_dy d) (p_id p) all"

definition redecide_spec :: "player list \<Rightarrow> player \<Rightarrow> string" where
  "redecide_spec all p =
    (case find (candidate_ok all p) (candidates_spec p) of Some d \<Rightarrow> d | None \<Rightarrow> p_dir p)"

text \<open>
  A bot whose countdown exceeds its interval at the next tick, and a player elsewhere
  with a given trail.
\<close>

definition wandering_bot :: player where
  "wandering_bot = (new_player ''bot_1'' True 300 400 ''right'' 200)\<lparr>p_lastDecision := 200\<rparr>"

definition wall_player :: "tpoint list \<Rightarrow> player" where
  "wall_player tr = (new_player ''w'' False 700 500 ''down'' 300)\<lparr>p_trail := tr\<rparr>"

text \<open>
  The predicates of the collision claims: the cell key of an indexed trail point (each
  axis integer-divided by the cell size 6), the bucket \<^verbatim>\<open>occupancy.get(key)\<close> read as a
  list, the 6-unit box of the kill rule, and the grace window (an own point among the
  last 10 of a trail of \<open>len\<close> points).
\<close>

definition entry_key :: "entry \<Rightarrow> int \<times> int" where
  "entry_key e = (e_x e div 6, e_y e div 6)"

definition bucket_of :: "occupancy \<Rightarrow> int \<times> int \<Rightarrow> entry list" where
  "bucket_of occ k = (case occ k of None \<Rightarrow> [] | Some b \<Rightarrow> b)"

definition near6 :: "real \<Rightarrow> real \<Rightarrow> entry \<Rightarrow> bool" where
  "near6 vx vy t \<longleftrightarrow> \<bar>vx - of_int (e_x t)\<bar> < 6 \<and> \<bar>vy - of_int (e_y t)\<bar> < 6"

definition in_grace :: "string \<Rightarrow> nat \<Rightarrow> entry \<Rightarrow> bool" where
  "in_grace i len t \<longleftrightarrow> e_ownerId t = i \<and> len - 10 \<le> e_idx t"

text \<open>Sample data: players heading right from \<open>x = 100\<close>, and states built from them.\<close>

definition runner :: "string \<Rightarrow> real \<Rightarrow> player" where
  "runner i vy = new_player i False 100 vy ''right'' 300"

definition trail_of_two :: "player list" where
  "trail_of_two =
    [(runner ''a'' 300)\<lparr>p_x := 108, p_trail := [\<lparr>t_x = 104, t_y = 300\<rparr>, \<lparr>t_x = 108, t_y = 300\<rparr>]\<rparr>,
     (runner ''b'' 500)\<lparr>p_x := 104, p_trail := [\<lparr>t_x = 104, t_y = 500\<rparr>]\<rparr>]"

text \<open>
  A player standing on its own trail: 11 points, all on its position, so that the point
  at index 0 is older than the last 10; and the same with 10 points, all within them.
\<close>

definition looped_player :: player where
  "looped_player = (runner ''a'' 300)\<lparr>p_x := 104,
     p_trail := \<lparr>t_x = 104, t_y = 300\<rparr> # replicate 10 \<lparr>t_x = 104, t_y = 300\<rparr>\<rparr>"

definition fresh_looped_player :: player where
  "fresh_looped_player = (runner ''a'' 300)\<lparr>p_x := 104,
     p_trail := replicate 10 \<lparr>t_x = 104, t_y = 300\<rparr>\<rparr>"

text \<open>The end condition of both ticks: at most one entity is alive.\<close>

definition match_over :: "player list \<Rightarrow> bool" where
  "match_over ps \<longleftrightarrow> length (filter p_alive ps) \<le> 1"

text \<open>Two players on the row \<open>y = 300\<close>, 40 units apart, heading for each other.\<close>

definition head_on :: "player list" where
  "head_on = [new_player ''a'' False 100 300 ''right'' 300, new_player ''b'' False 140 300 ''left'' 300]"

text \<open>
  The head-on scenario. \<open>keeps_heading r p\<close>: the heading of \<open>p\<close> is not re-decided
  during the next \<open>r\<close> ticks (a human, or a bot whose countdown stays within its
  interval). \<open>approaching a b gap r ps\<close>: the players at positions \<open>a\<close> and \<open>b\<close> of the
  dictionary are distinct entities on one row inside the play area, \<open>gap\<close> units apart,
  heading for each other, and keep their headings for \<open>r\<close> ticks. \<open>integral p\<close>: the
  position of \<open>p\<close> is a pair of integers, as every position in \<^verbatim>\<open>MatchRoom\<close> is.
  \<open>one_down a b flags\<close>: of the alive flags at positions \<open>a\<close> and \<open>b\<close> at least one is
  unset. \<open>alive_flags\<close> reads the alive flags off the payload of a \<^verbatim>\<open>'state'\<close> message.
\<close>

definition keeps_heading :: "nat \<Rightarrow> player \<Rightarrow> bool" where
  "keeps_heading r p \<longleftrightarrow> \<not> p_isBot p \<or> p_lastDecision p + int r * TICK_MS \<le> p_decisionCooldown p"

definition approaching :: "nat \<Rightarrow> nat \<Rightarrow> real \<Rightarrow> nat \<Rightarrow> player list \<Rightarrow> bool" where
  "approaching a b gap r ps \<longleftrightarrow>
    a < length ps \<and> b < length ps \<and> p_id (ps ! a) \<noteq> p_id (ps ! b)
    \<and> p_dir (ps ! a) = ''right'' \<and> p_dir (ps ! b) = ''left''
    \<and> p_y (ps ! a) = p_y (ps ! b) \<and> p_x (ps ! b) = p_x (ps ! a) + gap
    \<and> 0 \<le> p_x (ps ! a) \<and> p_x (ps ! b) \<le> 1200
    \<and> keeps_heading r (ps ! a) \<and> keeps_heading r (ps ! b)"

definition integral :: "player \<Rightarrow> bool" where
  "integral p \<longleftrightarrow> p_x p \<in> \<int> \<and> p_y p \<in> \<int>"

definition one_down :: "nat \<Rightarrow> nat \<Rightarrow> bool list \<Rightarrow> bool" where
  "one_down a b flags \<longleftrightarrow> a < length flags \<and> b < length flags \<and> (\<not> flags ! a \<or> \<not> flags ! b)"

definition alive_flags :: "payload \<Rightarrow> bool list" where
  "alive_flags pl = (case pl of Players ps \<Rightarrow> map p_alive ps | OutPlayers vs \<Rightarrow> map o_alive vs)"

text \<open>
  The invariants of the scenario over a run: one of the two is not alive (for
  \<^verbatim>\<open>server.js\<close>: the last message emitted says so), or the loop runs and the two still
  approach each other, \<open>8 * r\<close> units apart.
\<close>

definition closing_room :: "nat \<Rightarrow> nat \<Rightarrow> nat \<Rightarrow> room \<Rightarrow> bool" where
  "closing_room a b r s \<longleftrightarrow>
    one_down a b (map p_alive (players s))
    \<or> (0 < r \<and> interval_active s \<and> approaching a b (8 * real r) r (players s)
        \<and> integral (players s ! a))"

definition shown_down :: "nat \<Rightarrow> nat \<Rightarrow> server \<Rightarrow> bool" where
  "shown_down a b g \<longleftrightarrow>
    emitted g \<noteq> [] \<and> one_down a b (alive_flags (m_players (last (emitted g))))"

definition closing_srv :: "nat \<Rightarrow> nat \<Rightarrow> nat \<Rightarrow> server \<Rightarrow> bool" where
  "closing_srv a b r g \<longleftrightarrow>
    (shown_down a b g \<and> (gameInterval g \<longrightarrow> one_down a b (map p_alive (g_players g))))
    \<or> (0 < r \<and> gameInterval g \<and> approaching a b (8 * real r) r (g_players g))"

section \<open>Helper lemmas\<close>

lemma for_each_length: "length (for_each body acc todo) = length acc + length todo"
  by (induction todo arbitrary: acc) simp_all

lemma for_each_nth_acc: "i < length acc \<Longrightarrow> for_each body acc todo ! i = acc ! i"
  by (induction todo arbitrary: acc) (simp_all add: nth_append)

lemma for_each_nth_todo:
  "k < length todo \<Longrightarrow>
   \<exists>all. length all = length acc + length todo \<and>
     for_each body acc todo ! (length acc + k) = body all (todo ! k)"
proof (induction todo arbitrary: acc k)
  case Nil
  then show ?case by simp
next
  case (Cons p rest)
  let ?acc = "acc @ [body (acc @ p # rest) p]"
  show ?case
  proof (cases k)
    case 0
    have "for_each body ?acc rest ! length acc = ?acc ! length acc"
      by (rule for_each_nth_acc) simp
    then show ?thesis using 0 by (intro exI [of _ "acc @ p # rest"]) simp
  next
    case (Suc j)
    with Cons.prems have "j < length rest" by simp
    from Cons.IH [OF this, of ?acc] Suc show ?thesis by auto
  qed
qed

lemma for_each_nth:
  "i < length ps \<Longrightarrow> \<exists>all. length all = length ps \<and> for_each body [] ps ! i = body all (ps ! i)"
  using for_each_nth_todo [of i ps "[]" body] by simp

lemma move_by_dir_eq:
  "move_by_dir p = p\<lparr>p_x := p_x p + step_dx (p_dir p), p_y := p_y p + step_dy (p_dir p)\<rparr>"
  by (simp add: move_by_dir_def step_dx_def step_dy_def Let_def)

lemma clamp_srv_eq: "clamp_srv p = clamp_room p"
  by (simp add: clamp_srv_def clamp_room_def Let_def PLAY_AREA_w_def PLAY_AREA_h_def max_def min_def)

lemma clamp_room_in_area: "in_play_area (clamp_room p)"
  by (simp add: clamp_room_def in_play_area_def Let_def PLAY_AREA_w_def PLAY_AREA_h_def)

lemma push_trail_fields [simp]:
  "p_x (push_trail n p) = p_x p" "p_y (push_trail n p) = p_y p" "p_alive (push_trail n p) = p_alive p"
  "p_id (push_trail n p) = p_id p" "p_dir (push_trail n p) = p_dir p" "p_isBot (push_trail n p) = p_isBot p"
  "p_name (push_trail n p) = p_name p"
  "p_lastDecision (push_trail n p) = p_lastDecision p" "p_decisionCooldown (push_trail n p) = p_decisionCooldown p"
  by (simp_all add: push_trail_def Let_def)

lemma in_play_area_push [simp]: "in_play_area (push_trail n p) = in_play_area p"
  by (simp add: in_play_area_def)

lemma move_player_room_in_area: "p_alive p \<Longrightarrow> in_play_area (move_player_room delta d all p)"
  by (simp add: move_player_room_def Let_def clamp_room_in_area)

lemma move_player_srv_in_area: "p_alive p \<Longrightarrow> in_play_area (move_player_srv d all p)"
  by (simp add: move_player_srv_def Let_def clamp_room_in_area clamp_srv_eq)

lemma kill_fields [simp]:
  "p_x (kill all t p) = p_x p" "p_y (kill all t p) = p_y p" "p_trail (kill all t p) = p_trail p"
  "p_id (kill all t p) = p_id p" "p_dir (kill all t p) = p_dir p" "p_isBot (kill all t p) = p_isBot p"
  "p_name (kill all t p) = p_name p" "\<not> p_alive (kill all t p)"
  "p_lastDecision (kill all t p) = p_lastDecision p" "p_decisionCooldown (kill all t p) = p_decisionCooldown p"
  by (simp_all add: kill_def)

lemma collide_room_fields [simp]:
  "p_x (collide_room occ all p) = p_x p" "p_y (collide_room occ all p) = p_y p"
  "p_trail (collide_room occ all p) = p_trail p" "p_id (collide_room occ all p) = p_id p"
  "p_dir (collide_room occ all p) = p_dir p" "p_isBot (collide_room occ all p) = p_isBot p"
  "p_name (collide_room occ all p) = p_name p"
  "p_lastDecision (collide_room occ all p) = p_lastDecision p"
  "p_decisionCooldown (collide_room occ all p) = p_decisionCooldown p"
  by (simp_all add: collide_room_def split: option.splits)

lemma collide_srv_fields [simp]:
  "p_x (collide_srv ts all p) = p_x p" "p_y (collide_srv ts all p) = p_y p"
  "p_trail (collide_srv ts all p) = p_trail p" "p_id (collide_srv ts all p) = p_id p"
  "p_dir (collide_srv ts all p) = p_dir p" "p_isBot (collide_srv ts all p) = p_isBot p"
  "p_name (collide_srv ts all p) = p_name p"
  "p_lastDecision (collide_srv ts all p) = p_lastDecision p"
  "p_decisionCooldown (collide_srv ts all p) = p_decisionCooldown p"
  by (simp_all add: collide_srv_def Let_def out_of_bounds_def split: option.splits)

lemma in_play_area_collide [simp]:
  "in_play_area (collide_room occ all p) = in_play_area p"
  "in_play_area (collide_srv ts all p) = in_play_area p"
  by (simp_all add: in_play_area_def)

lemma simulate_room_nth:
  assumes "i < length ps"
  shows "\<exists>all1 all2. simulate_room delta d ps ! i =
    collide_room (build_occupancy Map.empty (for_each (move_player_room delta d) [] ps)) all2
      (move_player_room delta d all1 (ps ! i))"
proof -
  let ?ps1 = "for_each (move_player_room delta d) [] ps"
  have len: "i < length ?ps1" using assms by (simp add: for_each_length)
  from for_each_nth [OF assms, of "move_player_room delta d"]
  obtain all1 where a1: "?ps1 ! i = move_player_room delta d all1 (ps ! i)" by blast
  from for_each_nth [OF len, of "collide_room (build_occupancy Map.empty ?ps1)"]
  obtain all2 where "for_each (collide_room (build_occupancy Map.empty ?ps1)) [] ?ps1 ! i =
      collide_room (build_occupancy Map.empty ?ps1) all2 (?ps1 ! i)" by blast
  with a1 show ?thesis by (auto simp: simulate_room_def Let_def)
qed

lemma simulate_srv_nth:
  assumes "i < length ps"
  shows "\<exists>all1 all2. simulate_srv d ps ! i =
    collide_srv (allTrails (for_each (move_player_srv d) [] ps)) all2
      (move_player_srv d all1 (ps ! i))"
proof -
  let ?ps1 = "for_each (move_player_srv d) [] ps"
  have len: "i < length ?ps1" using assms by (simp add: for_each_length)
  from for_each_nth [OF assms, of "move_player_srv d"]
  obtain all1 where a1: "?ps1 ! i = move_player_srv d all1 (ps ! i)" by blast
  from for_each_nth [OF len, of "collide_srv (allTrails ?ps1)"]
  obtain all2 where "for_each (collide_srv (allTrails ?ps1)) [] ?ps1 ! i =
      collide_srv (allTrails ?ps1) all2 (?ps1 ! i)" by blast
  with a1 show ?thesis by (auto simp: simulate_srv_def Let_def)
qed

lemma simulate_length [simp]:
  "length (simulate_room delta d ps) = length ps" "length (simulate_srv d ps) = length ps"
  by (simp_all add: simulate_room_def simulate_srv_def Let_def for_each_length)

lemma move_dead [simp]:
  "\<not> p_alive p \<Longrightarrow> move_player_room delta d all p = p"
  "\<not> p_alive p \<Longrightarrow> move_player_srv d all p = p"
  by (simp_all add: move_player_room_def move_player_srv_def)

lemma collide_dead [simp]:
  "\<not> p_alive p \<Longrightarrow> collide_room occ all p = p"
  "\<not> p_alive p \<Longrightarrow> collide_srv ts all p = p"
  by (simp_all add: collide_room_def collide_srv_def)

lemma simulate_dead:
  assumes "i < length ps" "\<not> p_alive (ps ! i)"
  shows "simulate_room delta d ps ! i = ps ! i" "simulate_srv d ps ! i = ps ! i"
  using simulate_room_nth [OF assms(1), of delta d] simulate_srv_nth [OF assms(1), of d] assms(2)
  by auto

lemma simulate_in_area:
  assumes "i < length ps" "p_alive (ps ! i)"
  shows "in_play_area (simulate_room delta d ps ! i)" "in_play_area (simulate_srv d ps ! i)"
  using simulate_room_nth [OF assms(1), of delta d] simulate_srv_nth [OF assms(1), of d] assms(2)
  by (auto simp: move_player_room_in_area move_player_srv_in_area)

lemma bot_decide_room_fields [simp]:
  "p_id (bot_decide_room delta u all p) = p_id p" "p_alive (bot_decide_room delta u all p) = p_alive p"
  "p_x (bot_decide_room delta u all p) = p_x p" "p_y (bot_decide_room delta u all p) = p_y p"
  "p_trail (bot_decide_room delta u all p) = p_trail p" "p_isBot (bot_decide_room delta u all p) = p_isBot p"
  "p_name (bot_decide_room delta u all p) = p_name p"
  by (simp_all add: bot_decide_room_def Let_def split: option.splits)

lemma bot_decide_srv_fields [simp]:
  "p_id (bot_decide_srv u0 u1 u2 p) = p_id p" "p_alive (bot_decide_srv u0 u1 u2 p) = p_alive p"
  "p_x (bot_decide_srv u0 u1 u2 p) = p_x p" "p_y (bot_decide_srv u0 u1 u2 p) = p_y p"
  "p_trail (bot_decide_srv u0 u1 u2 p) = p_trail p" "p_isBot (bot_decide_srv u0 u1 u2 p) = p_isBot p"
  "p_name (bot_decide_srv u0 u1 u2 p) = p_name p"
  by (simp_all add: bot_decide_srv_def Let_def)

lemma move_clamp_fields [simp]:
  "p_id (move_by_dir p) = p_id p" "p_alive (move_by_dir p) = p_alive p" "p_isBot (move_by_dir p) = p_isBot p"
  "p_name (move_by_dir p) = p_name p" "p_trail (move_by_dir p) = p_trail p" "p_dir (move_by_dir p) = p_dir p"
  "p_lastDecision (move_by_dir p) = p_lastDecision p" "p_decisionCooldown (move_by_dir p) = p_decisionCooldown p"
  "p_id (clamp_room p) = p_id p" "p_alive (clamp_room p) = p_alive p" "p_isBot (clamp_room p) = p_isBot p"
  "p_name (clamp_room p) = p_name p" "p_trail (clamp_room p) = p_trail p" "p_dir (clamp_room p) = p_dir p"
  "p_lastDecision (clamp_room p) = p_lastDecision p" "p_decisionCooldown (clamp_room p) = p_decisionCooldown p"
  by (simp_all add: move_by_dir_eq clamp_room_def Let_def)

lemma move_player_fields [simp]:
  "p_id (move_player_room delta d all p) = p_id p" "p_alive (move_player_room delta d all p) = p_alive p"
  "p_isBot (move_player_room delta d all p) = p_isBot p" "p_name (move_player_room delta d all p) = p_name p"
  "p_id (move_player_srv d all p) = p_id p" "p_alive (move_player_srv d all p) = p_alive p"
  "p_isBot (move_player_srv d all p) = p_isBot p" "p_name (move_player_srv d all p) = p_name p"
  by (simp_all add: move_player_room_def move_player_srv_def Let_def clamp_srv_eq)

lemma simulate_id:
  assumes "i < length ps"
  shows "p_id (simulate_room delta d ps ! i) = p_id (ps ! i)" "p_id (simulate_srv d ps ! i) = p_id (ps ! i)"
  using simulate_room_nth [OF assms(1), of delta d] simulate_srv_nth [OF assms(1), of d]
  by auto

lemma lookup_frozen:
  assumes "list_all2 (\<lambda>p q. p_id q = p_id p \<and> (\<not> p_alive p \<longrightarrow> q = p)) ps qs"
    and "lookup k ps = Some p" and "\<not> p_alive p"
  shows "lookup k qs = Some p"
  using assms by (induction rule: list_all2_induct) (auto split: if_splits)

lemma simulate_frozen:
  "list_all2 (\<lambda>p q. p_id q = p_id p \<and> (\<not> p_alive p \<longrightarrow> q = p)) ps (simulate_room delta d ps)"
  "list_all2 (\<lambda>p q. p_id q = p_id p \<and> (\<not> p_alive p \<longrightarrow> q = p)) ps (simulate_srv d ps)"
  by (simp_all add: list_all2_conv_all_nth simulate_id simulate_dead)

lemma lookup_filter_bots:
  "lookup k (filter (\<lambda>p. \<not> is_bot_id (p_id p)) ps) = (if is_bot_id k then None else lookup k ps)"
  by (induction ps) auto

lemma players_tick_room [simp]: "players (tick_room delta d s) = simulate_room delta d (players s)"
  by (simp add: tick_room_def tick_room_call_def Let_def)

lemma players_tick_srv:
  "g_players (tick_srv d g) =
    (if length (filter p_alive (simulate_srv d (g_players g))) \<le> 1
     then filter (\<lambda>p. \<not> is_bot_id (p_id p)) (simulate_srv d (g_players g))
     else simulate_srv d (g_players g))"
  by (simp add: tick_srv_def Let_def)

lemma simulate_area_inv:
  assumes "\<forall>p \<in> set ps. in_play_area p"
  shows "\<forall>q \<in> set (simulate_room delta d ps). in_play_area q" "\<forall>q \<in> set (simulate_srv d ps). in_play_area q"
proof -
  have "in_play_area (simulate_room delta d ps ! i) \<and> in_play_area (simulate_srv d ps ! i)" if "i < length ps" for i
    using simulate_in_area [OF that] simulate_dead [OF that] assms that
    by (cases "p_alive (ps ! i)") auto
  then show "\<forall>q \<in> set (simulate_room delta d ps). in_play_area q" "\<forall>q \<in> set (simulate_srv d ps). in_play_area q"
    by (auto simp: in_set_conv_nth)
qed

lemma lookup_modify:
  "lookup j (modify i f ps) =
    (if j = i then map_option f (lookup i ps) else lookup j ps)" if "\<And>p. p_id (f p) = p_id p"
  using that by (induction ps) auto

lemma trail_danger_iff:
  "trail_danger nx ny own tr ti \<longleftrightarrow>
    (\<exists>j. ti \<le> j \<and> j < length tr \<and> 4 dvd (j - ti) \<and> near8 nx ny (tr ! j)
       \<and> \<not> (own \<and> length tr - 10 \<le> j))"
proof (induction nx ny own tr ti rule: trail_danger.induct)
  case (1 nx ny own tr ti)
  let ?P = "\<lambda>j. near8 nx ny (tr ! j) \<and> \<not> (own \<and> length tr - 10 \<le> j)"
  show ?case
  proof (cases "ti < length tr")
    case False
    then show ?thesis by (subst trail_danger.simps) auto
  next
    case True
    have grace: "(max 0 (int (length tr) - 10) \<le> int ti) = (length tr - 10 \<le> ti)" by auto
    show ?thesis
    proof (cases "?P ti")
      case hit: True
      then have "trail_danger nx ny own tr ti"
        using True by (subst trail_danger.simps) (auto simp: near8_def grace)
      moreover have "\<exists>j. ti \<le> j \<and> j < length tr \<and> 4 dvd (j - ti) \<and> ?P j"
        using True hit by (intro exI [of _ ti]) simp
      ultimately show ?thesis by blast
    next
      case miss: False
      then have step: "trail_danger nx ny own tr ti = trail_danger nx ny own tr (ti + 4)"
        using True by (subst trail_danger.simps) (auto simp: near8_def grace)
      have ih: "trail_danger nx ny own tr (ti + 4) \<longleftrightarrow>
          (\<exists>j. ti + 4 \<le> j \<and> j < length tr \<and> 4 dvd (j - (ti + 4)) \<and> ?P j)"
      proof (cases "near8 nx ny (tr ! ti)")
        case near: True
        with miss have "own \<and> max 0 (int (length tr) - 10) \<le> int ti"
          using grace by blast
        from "1.IH"(1) [OF True near [unfolded near8_def] this] show ?thesis .
      next
        case far: False
        from "1.IH"(2) [OF True far [unfolded near8_def]] show ?thesis .
      qed
      have "(\<exists>j. ti + 4 \<le> j \<and> j < length tr \<and> 4 dvd (j - (ti + 4)) \<and> ?P j)
          \<longleftrightarrow> (\<exists>j. ti \<le> j \<and> j < length tr \<and> 4 dvd (j - ti) \<and> ?P j)" (is "?L \<longleftrightarrow> ?R")
      proof
        assume ?L
        then obtain j where j: "ti + 4 \<le> j" "j < length tr" "4 dvd (j - (ti + 4))" "?P j" by blast
        then have "4 dvd (j - ti)" by presburger
        with j show ?R by (intro exI [of _ j]) simp
      next
        assume ?R
        then obtain j where j: "ti \<le> j" "j < length tr" "4 dvd (j - ti)" "?P j" by blast
        with miss have "j \<noteq> ti" by blast
        with j have "ti + 4 \<le> j" "4 dvd (j - (ti + 4))" by presburger+
        with j show ?L by (intro exI [of _ j]) simp
      qed
      with step ih show ?thesis by simp
    qed
  qed
qed

lemma players_danger_iff: "players_danger nx ny i ps = dangerous_spec nx ny i ps"
proof (induction ps)
  case Nil
  show ?case by (simp add: dangerous_spec_def)
next
  case (Cons other rest)
  have "dangerous_spec nx ny i (other # rest) \<longleftrightarrow>
      trail_danger nx ny (p_id other = i) (p_trail other) 0 \<or> dangerous_spec nx ny i rest"
    by (auto simp: dangerous_spec_def trail_danger_iff list_ex_iff)
  with Cons show ?case by auto
qed

lemma trail_danger_sampled:
  assumes "length tr = length tr'" and "list_all (\<lambda>j. 4 dvd j \<longrightarrow> tr ! j = tr' ! j) [0..<length tr]"
  shows "trail_danger nx ny own tr 0 = trail_danger nx ny own tr' 0"
  using assms by (auto simp: trail_danger_iff list_all_iff)

lemma players_danger_sampled:
  assumes "same_sampled ps qs"
  shows "players_danger nx ny i ps = players_danger nx ny i qs"
  using assms unfolding same_sampled_def
proof (induction rule: list_all2_induct)
  case Nil
  show ?case by simp
next
  case (Cons p ps q qs)
  from Cons.hyps(1) have len: "length (p_trail p) = length (p_trail q)"
    and smp: "list_all (\<lambda>j. 4 dvd j \<longrightarrow> p_trail p ! j = p_trail q ! j) [0..<length (p_trail p)]"
    by blast+
  have "trail_danger nx ny (p_id q = i) (p_trail p) 0 = trail_danger nx ny (p_id q = i) (p_trail q) 0"
    by (rule trail_danger_sampled [OF len smp])
  with Cons have "trail_danger nx ny (p_id p = i) (p_trail p) 0 = trail_danger nx ny (p_id q = i) (p_trail q) 0"
    by simp
  with Cons show ?case by simp
qed

lemma choose_dir_sampled:
  assumes "same_sampled ps qs"
  shows "choose_dir ps p ds = choose_dir qs p ds"
  by (induction ds) (simp_all add: Let_def players_danger_sampled [OF assms])

lemma choose_dir_find: "choose_dir all p ds = find (candidate_ok all p) ds"
  by (induction ds)
    (auto simp: Let_def candidate_ok_def PLAY_AREA_w_def PLAY_AREA_h_def not_less not_le)

lemma find_remove1_failed: "\<not> P a \<Longrightarrow> find P (remove1 a xs) = find P xs"
  by (induction xs) auto

lemma find_candidates: "find P (a # xs) = find P (a # remove1 a xs)"
  by (simp add: find_remove1_failed)

lemma find_in: "find P xs = Some a \<Longrightarrow> a \<in> set xs"
  by (induction xs) (auto split: if_splits)

lemma candidate_ok_decided [simp]:
  "candidate_ok all (p\<lparr>p_lastDecision := a, p_decisionCooldown := b\<rparr>) = candidate_ok all p"
  by (simp add: candidate_ok_def fun_eq_iff)

lemma bot_decide_room_dir:
  "p_dir (bot_decide_room delta u all p) =
    (if p_lastDecision p + delta > p_decisionCooldown p then redecide_spec all p else p_dir p)"
proof -
  have "d = p_dir p" if "find (candidate_ok all p) (p_dir p # cardinals) = Some d" "d = []" for d
    using find_in [OF that(1)] that(2) by (auto simp: cardinals_def)
  then show ?thesis
    by (auto simp: bot_decide_room_def Let_def redecide_spec_def choose_dir_find directions_room_def
        candidates_spec_def find_candidates [of _ "p_dir p" cardinals, symmetric]
        split: option.splits simp del: find.simps)
qed

lemma cell_key_of_int: "cell_key (of_int a) (of_int b) = (a div 6, b div 6)"
proof -
  have "\<lfloor>real_of_int a / 6\<rfloor> = a div 6" "\<lfloor>real_of_int b / 6\<rfloor> = b div 6"
    using floor_divide_of_int_eq [of a 6, where ?'a = real] floor_divide_of_int_eq [of b 6, where ?'a = real]
    by simp_all
  then show ?thesis by (simp add: cell_key_def CELL_def)
qed

lemma occupancy_push_apply:
  "occupancy_push occ key e k = (if k = key then Some (bucket_of occ key @ [e]) else occ k)"
  by (auto simp: occupancy_push_def bucket_of_def Let_def)

lemma index_trail_apply:
  "index_trail occ i n pts k =
    (if filter (\<lambda>e. entry_key e = k) (trail_entries i n pts) = [] then occ k
     else Some (bucket_of occ k @ filter (\<lambda>e. entry_key e = k) (trail_entries i n pts)))"
proof (induction pts arbitrary: occ n)
  case Nil
  show ?case by simp
next
  case (Cons pt pts)
  let ?e = "\<lparr>e_ownerId = i, e_idx = n, e_x = t_x pt, e_y = t_y pt\<rparr>"
  let ?occ = "occupancy_push occ (cell_key (of_int (t_x pt)) (of_int (t_y pt))) ?e"
  have key: "cell_key (of_int (t_x pt)) (of_int (t_y pt)) = entry_key ?e"
    by (simp add: cell_key_of_int entry_key_def)
  have b: "bucket_of ?occ k = (if k = entry_key ?e then bucket_of occ k @ [?e] else bucket_of occ k)"
    by (simp add: bucket_of_def occupancy_push_apply key)
  have o: "?occ k = (if k = entry_key ?e then Some (bucket_of occ k @ [?e]) else occ k)"
    by (simp add: occupancy_push_apply key)
  show ?case
    by (simp only: index_trail.simps trail_entries.simps Cons.IH b o) auto
qed

lemma bucket_of_index_trail:
  "bucket_of (index_trail occ i n pts) k =
    bucket_of occ k @ filter (\<lambda>e. entry_key e = k) (trail_entries i n pts)"
  by (simp add: bucket_of_def [of "index_trail occ i n pts"] index_trail_apply) (simp add: bucket_of_def)

lemma build_occupancy_apply:
  "build_occupancy occ ps k =
    (if filter (\<lambda>e. entry_key e = k) (allTrails ps) = [] then occ k
     else Some (bucket_of occ k @ filter (\<lambda>e. entry_key e = k) (allTrails ps)))"
proof (induction ps arbitrary: occ)
  case Nil
  show ?case by simp
next
  case (Cons p ps)
  show ?case
    by (simp only: build_occupancy.simps allTrails.simps Cons.IH bucket_of_index_trail filter_append)
      (auto simp: index_trail_apply)
qed

lemma build_occupancy_empty:
  "build_occupancy Map.empty ps k =
    (if filter (\<lambda>e. entry_key e = k) (allTrails ps) = [] then None
     else Some (filter (\<lambda>e. entry_key e = k) (allTrails ps)))"
  by (simp add: build_occupancy_apply bucket_of_def)

lemma bucket_of_build:
  "bucket_of (build_occupancy Map.empty ps) k = filter (\<lambda>e. entry_key e = k) (allTrails ps)"
  by (simp add: bucket_of_def build_occupancy_empty)

lemma set_trail_entries:
  "set (trail_entries i n pts) =
    (\<lambda>j. \<lparr>e_ownerId = i, e_idx = n + j, e_x = t_x (pts ! j), e_y = t_y (pts ! j)\<rparr>) ` {..<length pts}"
proof (induction pts arbitrary: n)
  case Nil
  show ?case by simp
next
  case (Cons pt pts)
  have "{..<Suc (length pts)} = insert 0 (Suc ` {..<length pts})"
    by (auto simp: image_iff less_Suc_eq_0_disj)
  then show ?case by (simp add: Cons.IH image_image)
qed

lemma set_allTrails:
  "set (allTrails ps) =
    (\<Union>p \<in> set ps. (\<lambda>j. \<lparr>e_ownerId = p_id p, e_idx = j, e_x = t_x (p_trail p ! j),
        e_y = t_y (p_trail p ! j)\<rparr>) ` {..<length (p_trail p)})"
  by (induction ps) (simp_all add: set_trail_entries)

lemma collide_room_bucket:
  "collide_room occ all p =
    (if \<not> p_alive p then p
     else case scan_hits (p_id p) (p_x p) (p_y p) (length (p_trail p))
            (bucket_of occ (cell_key (p_x p) (p_y p))) of
       None \<Rightarrow> p
     | Some t \<Rightarrow> kill all t p)"
  by (simp add: collide_room_def bucket_of_def split: option.splits)

lemma scan_hits_Some:
  "scan_hits i vx vy len ts = Some t \<Longrightarrow> t \<in> set ts \<and> near6 vx vy t \<and> \<not> in_grace i len t"
proof (induction ts)
  case Nil
  then show ?case by simp
next
  case (Cons a ts)
  have grace: "(max 0 (int len - 10) \<le> int (e_idx a)) = (len - 10 \<le> e_idx a)" by auto
  from Cons show ?case
    by (auto simp: near6_def in_grace_def grace split: if_splits)
qed

lemma scan_hits_None:
  "scan_hits i vx vy len ts = None \<longleftrightarrow> (\<forall>t \<in> set ts. in_grace i len t \<or> \<not> near6 vx vy t)"
proof (induction ts)
  case Nil
  show ?case by simp
next
  case (Cons a ts)
  have grace: "(max 0 (int len - 10) \<le> int (e_idx a)) = (len - 10 \<le> e_idx a)" by auto
  from Cons show ?case
    by (auto simp: near6_def in_grace_def grace)
qed

lemma alive_collide_srv:
  "p_alive (collide_srv trails all p) \<longleftrightarrow>
    p_alive p \<and> scan_hits (p_id p) (p_x p) (p_y p) (length (p_trail p)) trails = None
    \<and> \<not> out_of_bounds p"
  by (auto simp: collide_srv_def Let_def out_of_bounds_def split: option.splits)

lemma alive_collide_room:
  "p_alive (collide_room occ all p) \<longleftrightarrow>
    p_alive p \<and> scan_hits (p_id p) (p_x p) (p_y p) (length (p_trail p))
       (bucket_of occ (cell_key (p_x p) (p_y p))) = None"
  by (auto simp: collide_room_bucket split: option.splits)

lemma out_of_bounds_collide [simp]: "out_of_bounds (collide_srv ts all p) = out_of_bounds p"
  by (simp add: out_of_bounds_def)

lemma alive_simulate_srv_boundary:
  assumes "i < length ps" and "out_of_bounds (simulate_srv d ps ! i)"
  shows "\<not> p_alive (simulate_srv d ps ! i)"
proof -
  from simulate_srv_nth [OF assms(1), of d] obtain all1 all2 where
    e: "simulate_srv d ps ! i =
      collide_srv (allTrails (for_each (move_player_srv d) [] ps)) all2 (move_player_srv d all1 (ps ! i))"
    by blast
  with assms(2) have "out_of_bounds (move_player_srv d all1 (ps ! i))" by simp
  then show ?thesis by (simp add: e alive_collide_srv)
qed

lemma tick_room_effect:
  "broadcasts (tick_room delta d s) =
     broadcasts s @ [\<lparr>s_players = exportState (simulate_room delta d (players s)),
                      s_ended = match_over (simulate_room delta d (players s))\<rparr>]"
  "tickHandler (tick_room delta d s) = tickHandler s"
  "interval_active (tick_room delta d s) = interval_active s"
  by (simp_all add: tick_room_def tick_room_call_def Let_def match_over_def)

lemma tick_srv_effect:
  "emitted (tick_srv d g) =
     emitted g @ [\<lparr>m_players = (if match_over (simulate_srv d (g_players g))
                                 then Players (simulate_srv d (g_players g))
                                 else OutPlayers (map out_player (simulate_srv d (g_players g)))),
                    m_ended = match_over (simulate_srv d (g_players g))\<rparr>]"
  "gameInterval (tick_srv d g) = (gameInterval g \<and> \<not> match_over (simulate_srv d (g_players g)))"
  by (simp_all add: tick_srv_def Let_def match_over_def)

lemma onLeave_effect [simp]:
  "broadcasts (onLeave i s) = broadcasts s" "tickHandler (onLeave i s) = tickHandler s"
  "interval_active (onLeave i s) = interval_active s"
  by (simp_all add: onLeave_def)

lemma srv_event_effect [simp]:
  "emitted (on_turn i dir g) = emitted g" "gameInterval (on_turn i dir g) = gameInterval g"
  "emitted (on_disconnect i g) = emitted g" "gameInterval (on_disconnect i g) = gameInterval g"
  by (simp_all add: on_turn_def on_disconnect_def split: option.splits)

lemma run_srv_stopped:
  "\<not> gameInterval g \<Longrightarrow> emitted (run_srv evs g) = emitted g \<and> \<not> gameInterval (run_srv evs g)"
proof (induction evs arbitrary: g)
  case Nil
  then show ?case by simp
next
  case (Cons e evs)
  then show ?case by (cases e) simp_all
qed

lemma run_srv_flags:
  assumes "gameInterval g"
  shows "\<exists>k. map m_ended (emitted (run_srv evs g)) =
    map m_ended (emitted g) @ replicate k False
      @ (if gameInterval (run_srv evs g) then [] else [True])"
  using assms
proof (induction evs arbitrary: g)
  case Nil
  then show ?case by (intro exI [of _ 0]) simp
next
  case (Cons e evs)
  show ?case
  proof (cases e)
    case (Turn_srv i dir)
    with Cons.IH [of "on_turn i dir g"] Cons.prems show ?thesis by simp
  next
    case (Disconnect_srv i)
    with Cons.IH [of "on_disconnect i g"] Cons.prems show ?thesis by simp
  next
    case (Timer_srv d)
    let ?g = "tick_srv d g"
    show ?thesis
    proof (cases "match_over (simulate_srv d (g_players g))")
      case True
      then have "\<not> gameInterval ?g" by (simp add: tick_srv_effect)
      from run_srv_stopped [OF this, of evs] True Timer_srv Cons.prems
      show ?thesis by (intro exI [of _ 0]) (simp add: tick_srv_effect)
    next
      case False
      with Cons.prems have "gameInterval ?g" by (simp add: tick_srv_effect)
      from Cons.IH [OF this] obtain k where
        "map m_ended (emitted (run_srv evs ?g)) =
          map m_ended (emitted ?g) @ replicate k False
            @ (if gameInterval (run_srv evs ?g) then [] else [True])" by blast
      with False Timer_srv Cons.prems show ?thesis
        by (intro exI [of _ "Suc k"]) (simp add: tick_srv_effect replicate_app_Cons_same)
    qed
  qed
qed

lemma push_trail_last:
  assumes "0 < keep"
  shows "p_trail (push_trail keep p) \<noteq> []"
    and "last (p_trail (push_trail keep p)) = \<lparr>t_x = round (p_x p), t_y = round (p_y p)\<rparr>"
proof -
  let ?tr = "p_trail p @ [\<lparr>t_x = round (p_x p), t_y = round (p_y p)\<rparr>]"
  have tr: "p_trail (push_trail keep p) = (if length ?tr > keep then tl ?tr else ?tr)"
    by (simp add: push_trail_def Let_def)
  have "tl ?tr \<noteq> []" if "length ?tr > keep"
    using that assms by (cases "p_trail p") auto
  then show "p_trail (push_trail keep p) \<noteq> []" by (simp add: tr)
  have "last (tl ?tr) = last ?tr" if "length ?tr > keep"
    using that assms by (cases "p_trail p") auto
  then show "last (p_trail (push_trail keep p)) = \<lparr>t_x = round (p_x p), t_y = round (p_y p)\<rparr>"
    by (simp add: tr)
qed

lemma keeps_heading_fields:
  "p_isBot q = p_isBot p \<Longrightarrow> p_lastDecision q = p_lastDecision p \<Longrightarrow>
   p_decisionCooldown q = p_decisionCooldown p \<Longrightarrow> keeps_heading r q = keeps_heading r p"
  by (simp add: keeps_heading_def)

lemma tick_ms: "TICK_MS = 50"
  by (simp add: TICK_MS_def)

lemma bot_keeps_room:
  assumes "keeps_heading (Suc r) p" and "p_isBot p"
  shows "bot_decide_room TICK_MS u all p = p\<lparr>p_lastDecision := p_lastDecision p + TICK_MS\<rparr>"
  using assms by (simp add: bot_decide_room_def keeps_heading_def Let_def tick_ms)

lemma bot_keeps_srv:
  assumes "keeps_heading (Suc r) p" and "p_isBot p"
  shows "bot_decide_srv u0 u1 u2 p = p\<lparr>p_lastDecision := p_lastDecision p + TICK_MS\<rparr>"
  using assms by (simp add: bot_decide_srv_def keeps_heading_def Let_def tick_ms)

lemma keeps_heading_waited:
  "keeps_heading (Suc r) p \<Longrightarrow> p_isBot p \<Longrightarrow>
    keeps_heading r (p\<lparr>p_lastDecision := p_lastDecision p + TICK_MS\<rparr>)"
  by (simp add: keeps_heading_def tick_ms algebra_simps)

lemma keeps_heading_human: "\<not> p_isBot p \<Longrightarrow> keeps_heading r p"
  by (simp add: keeps_heading_def)

lemma move_room_keeps:
  assumes "p_alive p" and "keeps_heading (Suc r) p"
  shows "p_x (move_player_room TICK_MS d all p) = max 0 (min 1200 (p_x p + step_dx (p_dir p)))"
    and "p_y (move_player_room TICK_MS d all p) = max 0 (min 800 (p_y p + step_dy (p_dir p)))"
    and "p_dir (move_player_room TICK_MS d all p) = p_dir p"
    and "keeps_heading r (move_player_room TICK_MS d all p)"
proof -
  let ?p1 = "if p_isBot p then p\<lparr>p_lastDecision := p_lastDecision p + TICK_MS\<rparr> else p"
  have m: "move_player_room TICK_MS d all p = push_trail TRAIL_KEEP_room (clamp_room (move_by_dir ?p1))"
    using assms by (simp add: move_player_room_def Let_def bot_keeps_room)
  show "p_x (move_player_room TICK_MS d all p) = max 0 (min 1200 (p_x p + step_dx (p_dir p)))"
    "p_y (move_player_room TICK_MS d all p) = max 0 (min 800 (p_y p + step_dy (p_dir p)))"
    "p_dir (move_player_room TICK_MS d all p) = p_dir p"
    by (simp_all add: m move_by_dir_eq clamp_room_def Let_def PLAY_AREA_w_def PLAY_AREA_h_def)
  have "keeps_heading r ?p1"
    using assms(2) by (simp add: keeps_heading_waited keeps_heading_human)
  moreover have "keeps_heading r (move_player_room TICK_MS d all p) = keeps_heading r ?p1"
    unfolding m by (rule keeps_heading_fields) (simp_all add: push_trail_def Let_def)
  ultimately show "keeps_heading r (move_player_room TICK_MS d all p)" by simp
qed

lemma move_srv_keeps:
  assumes "p_alive p" and "keeps_heading (Suc r) p"
  shows "p_x (move_player_srv d all p) = max 0 (min 1200 (p_x p + step_dx (p_dir p)))"
    and "p_y (move_player_srv d all p) = max 0 (min 800 (p_y p + step_dy (p_dir p)))"
    and "p_dir (move_player_srv d all p) = p_dir p"
    and "keeps_heading r (move_player_srv d all p)"
proof -
  let ?p1 = "if p_isBot p then p\<lparr>p_lastDecision := p_lastDecision p + TICK_MS\<rparr> else p"
  have m: "move_player_srv d all p = push_trail TRAIL_KEEP_srv (clamp_room (move_by_dir ?p1))"
    using assms by (simp add: move_player_srv_def Let_def bot_keeps_srv clamp_srv_eq)
  show "p_x (move_player_srv d all p) = max 0 (min 1200 (p_x p + step_dx (p_dir p)))"
    "p_y (move_player_srv d all p) = max 0 (min 800 (p_y p + step_dy (p_dir p)))"
    "p_dir (move_player_srv d all p) = p_dir p"
    by (simp_all add: m move_by_dir_eq clamp_room_def Let_def PLAY_AREA_w_def PLAY_AREA_h_def)
  have "keeps_heading r ?p1"
    using assms(2) by (simp add: keeps_heading_waited keeps_heading_human)
  moreover have "keeps_heading r (move_player_srv d all p) = keeps_heading r ?p1"
    unfolding m by (rule keeps_heading_fields) (simp_all add: push_trail_def Let_def)
  ultimately show "keeps_heading r (move_player_srv d all p)" by simp
qed

lemma move_trail_last:
  assumes "p_alive p"
  shows "p_trail (move_player_room delta d all p) \<noteq> []"
    and "last (p_trail (move_player_room delta d all p)) =
      \<lparr>t_x = round (p_x (move_player_room delta d all p)),
       t_y = round (p_y (move_player_room delta d all p))\<rparr>"
    and "p_trail (move_player_srv d all p) \<noteq> []"
    and "last (p_trail (move_player_srv d all p)) =
      \<lparr>t_x = round (p_x (move_player_srv d all p)), t_y = round (p_y (move_player_srv d all p))\<rparr>"
  using assms
  by (simp_all add: move_player_room_def move_player_srv_def Let_def push_trail_last
      TRAIL_KEEP_room_def TRAIL_KEEP_srv_def)


lemma simulate_room_moved:
  assumes "i < length ps"
  shows "\<exists>all. simulate_room delta d ps ! i =
    collide_room (build_occupancy Map.empty (for_each (move_player_room delta d) [] ps)) all
      (for_each (move_player_room delta d) [] ps ! i)"
proof -
  have "i < length (for_each (move_player_room delta d) [] ps)"
    using assms by (simp add: for_each_length)
  from for_each_nth [OF this] show ?thesis
    by (auto simp: simulate_room_def Let_def)
qed

lemma simulate_srv_moved:
  assumes "i < length ps"
  shows "\<exists>all. simulate_srv d ps ! i =
    collide_srv (allTrails (for_each (move_player_srv d) [] ps)) all
      (for_each (move_player_srv d) [] ps ! i)"
proof -
  have "i < length (for_each (move_player_srv d) [] ps)"
    using assms by (simp add: for_each_length)
  from for_each_nth [OF this] show ?thesis
    by (auto simp: simulate_srv_def Let_def)
qed

lemma closing_arith:
  fixes xa :: real
  assumes "0 \<le> xa" and "xa + g \<le> 1200" and "8 \<le> g"
  shows "max 0 (min 1200 (xa + 4)) = xa + 4" and "max 0 (min 1200 (xa + g - 4)) = xa + g - 4"
  using assms by auto

lemma step_right_left [simp]:
  "step_dx ''right'' = 4" "step_dy ''right'' = 0" "step_dx ''left'' = - 4" "step_dy ''left'' = 0"
  by (simp_all add: step_dx_def step_dy_def PLAYER_SPEED_def)

lemma moved_pair:
  assumes ap: "approaching a b g (Suc r) ps" and g: "8 \<le> g"
    and qa: "p_x qa = max 0 (min 1200 (p_x (ps ! a) + step_dx (p_dir (ps ! a))))"
      "p_y qa = max 0 (min 800 (p_y (ps ! a) + step_dy (p_dir (ps ! a))))"
      "p_dir qa = p_dir (ps ! a)" "keeps_heading r qa" "p_id qa = p_id (ps ! a)"
    and qb: "p_x qb = max 0 (min 1200 (p_x (ps ! b) + step_dx (p_dir (ps ! b))))"
      "p_y qb = max 0 (min 800 (p_y (ps ! b) + step_dy (p_dir (ps ! b))))"
      "p_dir qb = p_dir (ps ! b)" "keeps_heading r qb" "p_id qb = p_id (ps ! b)"
  shows "p_x qa = p_x (ps ! a) + 4" and "p_x qb = p_x qa + (g - 8)" and "p_y qa = p_y qb"
    and "p_id qa \<noteq> p_id qb" and "p_dir qa = ''right''" and "p_dir qb = ''left''"
    and "0 \<le> p_x qa" and "p_x qb \<le> 1200"
proof -
  from ap have h: "p_dir (ps ! a) = ''right''" "p_dir (ps ! b) = ''left''"
    "p_y (ps ! a) = p_y (ps ! b)" "p_x (ps ! b) = p_x (ps ! a) + g"
    "0 \<le> p_x (ps ! a)" "p_x (ps ! a) + g \<le> 1200" "p_id (ps ! a) \<noteq> p_id (ps ! b)"
    by (simp_all add: approaching_def)
  from closing_arith [OF h(5,6) g] qa(1) qb(1) h(1,2,4)
  have x: "p_x qa = p_x (ps ! a) + 4" "p_x qb = p_x (ps ! a) + g - 4" by simp_all
  then show "p_x qa = p_x (ps ! a) + 4" "p_x qb = p_x qa + (g - 8)" by simp_all
  from qa(2) qb(2) h(1,2,3) show "p_y qa = p_y qb" by simp
  from qa(5) qb(5) h(7) show "p_id qa \<noteq> p_id qb" by simp
  from qa(3) qb(3) h(1,2) show "p_dir qa = ''right''" "p_dir qb = ''left''" by simp_all
  from x h(5,6) g show "0 \<le> p_x qa" "p_x qb \<le> 1200" by simp_all
qed

lemma approaching_step_room:
  assumes ap: "approaching a b g (Suc r) ps" and g: "8 \<le> g"
    and alive: "p_alive (ps ! a)" "p_alive (ps ! b)"
  shows "approaching a b (g - 8) r (simulate_room TICK_MS d ps)"
proof -
  let ?ps1 = "for_each (move_player_room TICK_MS d) [] ps"
  let ?ps2 = "simulate_room TICK_MS d ps"
  from ap have len: "a < length ps" "b < length ps"
    and k: "keeps_heading (Suc r) (ps ! a)" "keeps_heading (Suc r) (ps ! b)"
    by (simp_all add: approaching_def)
  from for_each_nth [OF len(1)] obtain alla where
    ma: "?ps1 ! a = move_player_room TICK_MS d alla (ps ! a)" by blast
  from for_each_nth [OF len(2)] obtain allb where
    mb: "?ps1 ! b = move_player_room TICK_MS d allb (ps ! b)" by blast
  from simulate_room_moved [OF len(1)] obtain ca where
    ca: "?ps2 ! a = collide_room (build_occupancy Map.empty ?ps1) ca (?ps1 ! a)" by blast
  from simulate_room_moved [OF len(2)] obtain cb where
    cb: "?ps2 ! b = collide_room (build_occupancy Map.empty ?ps1) cb (?ps1 ! b)" by blast
  have ka: "keeps_heading r (?ps2 ! a)"
    using move_room_keeps(4) [OF alive(1) k(1), of d alla]
    by (simp add: ca ma keeps_heading_def)
  have kb: "keeps_heading r (?ps2 ! b)"
    using move_room_keeps(4) [OF alive(2) k(2), of d allb]
    by (simp add: cb mb keeps_heading_def)
  note mp = moved_pair [OF ap g, of "?ps2 ! a" "?ps2 ! b"]
  have fa: "p_x (?ps2 ! a) = max 0 (min 1200 (p_x (ps ! a) + step_dx (p_dir (ps ! a))))"
      "p_y (?ps2 ! a) = max 0 (min 800 (p_y (ps ! a) + step_dy (p_dir (ps ! a))))"
      "p_dir (?ps2 ! a) = p_dir (ps ! a)" "p_id (?ps2 ! a) = p_id (ps ! a)"
    by (simp_all add: ca ma move_room_keeps [OF alive(1) k(1)])
  have fb: "p_x (?ps2 ! b) = max 0 (min 1200 (p_x (ps ! b) + step_dx (p_dir (ps ! b))))"
      "p_y (?ps2 ! b) = max 0 (min 800 (p_y (ps ! b) + step_dy (p_dir (ps ! b))))"
      "p_dir (?ps2 ! b) = p_dir (ps ! b)" "p_id (?ps2 ! b) = p_id (ps ! b)"
    by (simp_all add: cb mb move_room_keeps [OF alive(2) k(2)])
  from mp [OF fa(1,2,3) ka fa(4) fb(1,2,3) kb fb(4)] ka kb len
  show ?thesis by (simp add: approaching_def)
qed

lemma approaching_step_srv:
  assumes ap: "approaching a b g (Suc r) ps" and g: "8 \<le> g"
    and alive: "p_alive (ps ! a)" "p_alive (ps ! b)"
  shows "approaching a b (g - 8) r (simulate_srv d ps)"
proof -
  let ?ps1 = "for_each (move_player_srv d) [] ps"
  let ?ps2 = "simulate_srv d ps"
  from ap have len: "a < length ps" "b < length ps"
    and k: "keeps_heading (Suc r) (ps ! a)" "keeps_heading (Suc r) (ps ! b)"
    by (simp_all add: approaching_def)
  from for_each_nth [OF len(1)] obtain alla where
    ma: "?ps1 ! a = move_player_srv d alla (ps ! a)" by blast
  from for_each_nth [OF len(2)] obtain allb where
    mb: "?ps1 ! b = move_player_srv d allb (ps ! b)" by blast
  from simulate_srv_moved [OF len(1)] obtain ca where
    ca: "?ps2 ! a = collide_srv (allTrails ?ps1) ca (?ps1 ! a)" by blast
  from simulate_srv_moved [OF len(2)] obtain cb where
    cb: "?ps2 ! b = collide_srv (allTrails ?ps1) cb (?ps1 ! b)" by blast
  have ka: "keeps_heading r (?ps2 ! a)"
    using move_srv_keeps(4) [OF alive(1) k(1), of d alla]
    by (simp add: ca ma keeps_heading_def)
  have kb: "keeps_heading r (?ps2 ! b)"
    using move_srv_keeps(4) [OF alive(2) k(2), of d allb]
    by (simp add: cb mb keeps_heading_def)
  note mp = moved_pair [OF ap g, of "?ps2 ! a" "?ps2 ! b"]
  have fa: "p_x (?ps2 ! a) = max 0 (min 1200 (p_x (ps ! a) + step_dx (p_dir (ps ! a))))"
      "p_y (?ps2 ! a) = max 0 (min 800 (p_y (ps ! a) + step_dy (p_dir (ps ! a))))"
      "p_dir (?ps2 ! a) = p_dir (ps ! a)" "p_id (?ps2 ! a) = p_id (ps ! a)"
    by (simp_all add: ca ma move_srv_keeps [OF alive(1) k(1)])
  have fb: "p_x (?ps2 ! b) = max 0 (min 1200 (p_x (ps ! b) + step_dx (p_dir (ps ! b))))"
      "p_y (?ps2 ! b) = max 0 (min 800 (p_y (ps ! b) + step_dy (p_dir (ps ! b))))"
      "p_dir (?ps2 ! b) = p_dir (ps ! b)" "p_id (?ps2 ! b) = p_id (ps ! b)"
    by (simp_all add: cb mb move_srv_keeps [OF alive(2) k(2)])
  from mp [OF fa(1,2,3) ka fa(4) fb(1,2,3) kb fb(4)] ka kb len
  show ?thesis by (simp add: approaching_def)
qed

lemma entry_of_last_point:
  assumes "q \<in> set ps" and "p_trail q \<noteq> []"
  shows "\<lparr>e_ownerId = p_id q, e_idx = length (p_trail q) - 1, e_x = t_x (last (p_trail q)),
      e_y = t_y (last (p_trail q))\<rparr> \<in> set (allTrails ps)"
proof -
  from assms(2) have "length (p_trail q) - 1 < length (p_trail q)" by simp
  with assms(1) show ?thesis
    by (simp only: set_allTrails last_conv_nth [OF assms(2)]) blast
qed

lemma round_near: "\<bar>v - of_int (round v)\<bar> < (6 :: real)"
  using of_int_round_abs_le [of v] by (simp add: abs_minus_commute)

lemma final_srv:
  assumes ap: "approaching a b 8 (Suc r) ps" and alive: "p_alive (ps ! a)" "p_alive (ps ! b)"
  shows "\<not> p_alive (simulate_srv d ps ! a)"
proof -
  let ?ps1 = "for_each (move_player_srv d) [] ps"
  from ap have len: "a < length ps" "b < length ps"
    and k: "keeps_heading (Suc r) (ps ! a)" "keeps_heading (Suc r) (ps ! b)"
    by (simp_all add: approaching_def)
  from for_each_nth [OF len(1)] obtain alla where
    ma: "?ps1 ! a = move_player_srv d alla (ps ! a)" by blast
  from for_each_nth [OF len(2)] obtain allb where
    mb: "?ps1 ! b = move_player_srv d allb (ps ! b)" by blast
  from simulate_srv_moved [OF len(1)] obtain ca where
    ca: "simulate_srv d ps ! a = collide_srv (allTrails ?ps1) ca (?ps1 ! a)" by blast
  note mp = moved_pair [OF ap order_refl, of "?ps1 ! a" "?ps1 ! b"]
  have fa: "p_x (?ps1 ! a) = max 0 (min 1200 (p_x (ps ! a) + step_dx (p_dir (ps ! a))))"
      "p_y (?ps1 ! a) = max 0 (min 800 (p_y (ps ! a) + step_dy (p_dir (ps ! a))))"
      "p_dir (?ps1 ! a) = p_dir (ps ! a)" "keeps_heading r (?ps1 ! a)" "p_id (?ps1 ! a) = p_id (ps ! a)"
    by (simp_all add: ma move_srv_keeps [OF alive(1) k(1)])
  have fb: "p_x (?ps1 ! b) = max 0 (min 1200 (p_x (ps ! b) + step_dx (p_dir (ps ! b))))"
      "p_y (?ps1 ! b) = max 0 (min 800 (p_y (ps ! b) + step_dy (p_dir (ps ! b))))"
      "p_dir (?ps1 ! b) = p_dir (ps ! b)" "keeps_heading r (?ps1 ! b)" "p_id (?ps1 ! b) = p_id (ps ! b)"
    by (simp_all add: mb move_srv_keeps [OF alive(2) k(2)])
  from mp [OF fa fb] have same: "p_x (?ps1 ! b) = p_x (?ps1 ! a)" "p_y (?ps1 ! b) = p_y (?ps1 ! a)"
    and ids: "p_id (?ps1 ! a) \<noteq> p_id (?ps1 ! b)" by simp_all
  have tr: "p_trail (?ps1 ! b) \<noteq> []"
    "last (p_trail (?ps1 ! b)) = \<lparr>t_x = round (p_x (?ps1 ! a)), t_y = round (p_y (?ps1 ! a))\<rparr>"
    using move_trail_last(3,4) [OF alive(2), of d allb] same by (simp_all add: mb)
  let ?e = "\<lparr>e_ownerId = p_id (?ps1 ! b), e_idx = length (p_trail (?ps1 ! b)) - 1,
      e_x = round (p_x (?ps1 ! a)), e_y = round (p_y (?ps1 ! a))\<rparr>"
  have "?ps1 ! b \<in> set ?ps1" using len(2) by (simp add: for_each_length)
  from entry_of_last_point [OF this tr(1)] have mem: "?e \<in> set (allTrails ?ps1)"
    by (simp add: tr(2))
  have "near6 (p_x (?ps1 ! a)) (p_y (?ps1 ! a)) ?e"
    by (simp add: near6_def round_near)
  moreover have "\<not> in_grace (p_id (?ps1 ! a)) (length (p_trail (?ps1 ! a))) ?e"
    using ids by (simp add: in_grace_def)
  ultimately have "scan_hits (p_id (?ps1 ! a)) (p_x (?ps1 ! a)) (p_y (?ps1 ! a))
      (length (p_trail (?ps1 ! a))) (allTrails ?ps1) \<noteq> None"
    using mem by (simp only: scan_hits_None) blast
  then show ?thesis by (simp add: ca alive_collide_srv)
qed

lemma Ints_clamp:
  fixes v :: real
  assumes "v \<in> \<int>" and "hi \<in> \<int>"
  shows "max 0 (min hi v) \<in> \<int>"
  using assms by (simp add: max_def min_def)

lemma integral_move_room:
  assumes "integral p"
  shows "integral (move_player_room delta d all p)"
proof (cases "p_alive p")
  case False
  with assms show ?thesis by simp
next
  case True
  have "step_dx dir \<in> \<int>" "step_dy dir \<in> \<int>" for dir
    by (simp_all add: step_dx_def step_dy_def PLAYER_SPEED_def)
  with assms True show ?thesis
    by (simp add: integral_def move_player_room_def Let_def move_by_dir_eq clamp_room_def
        PLAY_AREA_w_def PLAY_AREA_h_def Ints_clamp)
qed

lemma integral_simulate_room:
  assumes "i < length ps" and "integral (ps ! i)"
  shows "integral (simulate_room delta d ps ! i)"
  using simulate_room_nth [OF assms(1), of delta d] integral_move_room [OF assms(2)]
  by (auto simp: integral_def)

lemma final_room:
  assumes ap: "approaching a b 8 (Suc r) ps" and alive: "p_alive (ps ! a)" "p_alive (ps ! b)"
    and int: "integral (ps ! a)"
  shows "\<not> p_alive (simulate_room TICK_MS d ps ! a)"
proof -
  let ?ps1 = "for_each (move_player_room TICK_MS d) [] ps"
  from ap have len: "a < length ps" "b < length ps"
    and k: "keeps_heading (Suc r) (ps ! a)" "keeps_heading (Suc r) (ps ! b)"
    by (simp_all add: approaching_def)
  from for_each_nth [OF len(1)] obtain alla where
    ma: "?ps1 ! a = move_player_room TICK_MS d alla (ps ! a)" by blast
  from for_each_nth [OF len(2)] obtain allb where
    mb: "?ps1 ! b = move_player_room TICK_MS d allb (ps ! b)" by blast
  from simulate_room_moved [OF len(1)] obtain ca where
    ca: "simulate_room TICK_MS d ps ! a =
      collide_room (build_occupancy Map.empty ?ps1) ca (?ps1 ! a)" by blast
  note mp = moved_pair [OF ap order_refl, of "?ps1 ! a" "?ps1 ! b"]
  have fa: "p_x (?ps1 ! a) = max 0 (min 1200 (p_x (ps ! a) + step_dx (p_dir (ps ! a))))"
      "p_y (?ps1 ! a) = max 0 (min 800 (p_y (ps ! a) + step_dy (p_dir (ps ! a))))"
      "p_dir (?ps1 ! a) = p_dir (ps ! a)" "keeps_heading r (?ps1 ! a)" "p_id (?ps1 ! a) = p_id (ps ! a)"
    by (simp_all add: ma move_room_keeps [OF alive(1) k(1)])
  have fb: "p_x (?ps1 ! b) = max 0 (min 1200 (p_x (ps ! b) + step_dx (p_dir (ps ! b))))"
      "p_y (?ps1 ! b) = max 0 (min 800 (p_y (ps ! b) + step_dy (p_dir (ps ! b))))"
      "p_dir (?ps1 ! b) = p_dir (ps ! b)" "keeps_heading r (?ps1 ! b)" "p_id (?ps1 ! b) = p_id (ps ! b)"
    by (simp_all add: mb move_room_keeps [OF alive(2) k(2)])
  from mp [OF fa fb] have same: "p_x (?ps1 ! b) = p_x (?ps1 ! a)" "p_y (?ps1 ! b) = p_y (?ps1 ! a)"
    and ids: "p_id (?ps1 ! a) \<noteq> p_id (?ps1 ! b)" by simp_all
  have tr: "p_trail (?ps1 ! b) \<noteq> []"
    "last (p_trail (?ps1 ! b)) = \<lparr>t_x = round (p_x (?ps1 ! a)), t_y = round (p_y (?ps1 ! a))\<rparr>"
    using move_trail_last(1,2) [OF alive(2), of TICK_MS d allb] same by (simp_all add: mb)
  let ?e = "\<lparr>e_ownerId = p_id (?ps1 ! b), e_idx = length (p_trail (?ps1 ! b)) - 1,
      e_x = round (p_x (?ps1 ! a)), e_y = round (p_y (?ps1 ! a))\<rparr>"
  have "?ps1 ! b \<in> set ?ps1" using len(2) by (simp add: for_each_length)
  from entry_of_last_point [OF this tr(1)] have mem: "?e \<in> set (allTrails ?ps1)"
    by (simp add: tr(2))
  from integral_move_room [OF int, of TICK_MS d alla]
  obtain n m where nm: "p_x (?ps1 ! a) = of_int n" "p_y (?ps1 ! a) = of_int m"
    by (auto simp: integral_def ma elim!: Ints_cases)
  have key: "entry_key ?e = cell_key (p_x (?ps1 ! a)) (p_y (?ps1 ! a))"
    by (simp add: nm cell_key_of_int entry_key_def)
  have "near6 (p_x (?ps1 ! a)) (p_y (?ps1 ! a)) ?e"
    by (simp add: near6_def round_near)
  moreover have "\<not> in_grace (p_id (?ps1 ! a)) (length (p_trail (?ps1 ! a))) ?e"
    using ids by (simp add: in_grace_def)
  moreover have "?e \<in> set (bucket_of (build_occupancy Map.empty ?ps1)
      (cell_key (p_x (?ps1 ! a)) (p_y (?ps1 ! a))))"
    using mem key by (simp add: bucket_of_build)
  ultimately have "scan_hits (p_id (?ps1 ! a)) (p_x (?ps1 ! a)) (p_y (?ps1 ! a))
      (length (p_trail (?ps1 ! a)))
      (bucket_of (build_occupancy Map.empty ?ps1) (cell_key (p_x (?ps1 ! a)) (p_y (?ps1 ! a))))
      \<noteq> None"
    by (simp only: scan_hits_None) blast
  then show ?thesis by (simp add: ca alive_collide_room)
qed


lemma two_alive_not_over:
  assumes "a < length ps" and "b < length ps" and "a \<noteq> b" and "p_alive (ps ! a)" and "p_alive (ps ! b)"
  shows "\<not> match_over ps"
proof -
  have "{a, b} \<subseteq> {i. i < length ps \<and> p_alive (ps ! i)}" using assms by simp
  then have "card {a, b} \<le> card {i. i < length ps \<and> p_alive (ps ! i)}"
    by (intro card_mono) simp_all
  with assms(3) show ?thesis
    by (simp add: match_over_def length_filter_conv_card)
qed

lemma one_down_map:
  "one_down a b (map f ps) \<longleftrightarrow>
    a < length ps \<and> b < length ps \<and> (\<not> f (ps ! a) \<or> \<not> f (ps ! b))"
  by (auto simp: one_down_def)

lemma one_down_simulate:
  assumes "one_down a b (map p_alive ps)"
  shows "one_down a b (map p_alive (simulate_room delta d ps))"
    and "one_down a b (map p_alive (simulate_srv d' ps))"
proof -
  from assms have len: "a < length ps" "b < length ps"
    and dead: "\<not> p_alive (ps ! a) \<or> \<not> p_alive (ps ! b)"
    by (simp_all add: one_down_map)
  from dead show "one_down a b (map p_alive (simulate_room delta d ps))"
    using simulate_dead(1) [OF len(1), of delta d] simulate_dead(1) [OF len(2), of delta d] len
    by (auto simp: one_down_map)
  from dead show "one_down a b (map p_alive (simulate_srv d' ps))"
    using simulate_dead(2) [OF len(1), of d'] simulate_dead(2) [OF len(2), of d'] len
    by (auto simp: one_down_map)
qed

lemma approaching_distinct:
  "approaching a b g r ps \<Longrightarrow> a < length ps \<and> b < length ps \<and> a \<noteq> b"
  by (auto simp: approaching_def)

lemma approaching_or_down_room:
  assumes ap: "approaching a b (8 * real (Suc r)) (Suc r) ps" and int: "integral (ps ! a)"
  shows "one_down a b (map p_alive (simulate_room TICK_MS d ps))
    \<or> (0 < r \<and> approaching a b (8 * real r) r (simulate_room TICK_MS d ps)
        \<and> integral (simulate_room TICK_MS d ps ! a)
        \<and> \<not> match_over (simulate_room TICK_MS d ps))"
proof (cases "p_alive (ps ! a) \<and> p_alive (ps ! b)")
  case False
  with approaching_distinct [OF ap] have "one_down a b (map p_alive ps)"
    by (auto simp: one_down_map)
  then show ?thesis by (simp add: one_down_simulate)
next
  case True
  note len = approaching_distinct [OF ap]
  show ?thesis
  proof (cases r)
    case 0
    with ap have "approaching a b 8 (Suc 0) ps" by simp
    from final_room [OF this _ _ int, of d] True len show ?thesis
      by (simp add: one_down_map)
  next
    case (Suc r')
    have "approaching a b (8 * real (Suc r) - 8) r (simulate_room TICK_MS d ps)"
      using True by (intro approaching_step_room [OF ap]) simp_all
    then have ap': "approaching a b (8 * real r) r (simulate_room TICK_MS d ps)"
      by (simp add: algebra_simps)
    have int': "integral (simulate_room TICK_MS d ps ! a)"
      using len int by (simp add: integral_simulate_room)
    show ?thesis
    proof (cases "one_down a b (map p_alive (simulate_room TICK_MS d ps))")
      case True
      then show ?thesis by simp
    next
      case False
      with len have "p_alive (simulate_room TICK_MS d ps ! a)" "p_alive (simulate_room TICK_MS d ps ! b)"
        by (simp_all add: one_down_map)
      with len have "\<not> match_over (simulate_room TICK_MS d ps)"
        by (intro two_alive_not_over [of a _ b]) simp_all
      with ap' int' Suc show ?thesis by simp
    qed
  qed
qed

lemma approaching_or_down_srv:
  assumes ap: "approaching a b (8 * real (Suc r)) (Suc r) ps"
  shows "one_down a b (map p_alive (simulate_srv d ps))
    \<or> (0 < r \<and> approaching a b (8 * real r) r (simulate_srv d ps)
        \<and> \<not> match_over (simulate_srv d ps))"
proof (cases "p_alive (ps ! a) \<and> p_alive (ps ! b)")
  case False
  with approaching_distinct [OF ap] have "one_down a b (map p_alive ps)"
    by (auto simp: one_down_map)
  then show ?thesis by (simp add: one_down_simulate)
next
  case True
  note len = approaching_distinct [OF ap]
  show ?thesis
  proof (cases r)
    case 0
    with ap have "approaching a b 8 (Suc 0) ps" by simp
    from final_srv [OF this, of d] True len show ?thesis
      by (simp add: one_down_map)
  next
    case (Suc r')
    have "approaching a b (8 * real (Suc r) - 8) r (simulate_srv d ps)"
      using True by (intro approaching_step_srv [OF ap]) simp_all
    then have ap': "approaching a b (8 * real r) r (simulate_srv d ps)"
      by (simp add: algebra_simps)
    show ?thesis
    proof (cases "one_down a b (map p_alive (simulate_srv d ps))")
      case True
      then show ?thesis by simp
    next
      case False
      with len have "p_alive (simulate_srv d ps ! a)" "p_alive (simulate_srv d ps ! b)"
        by (simp_all add: one_down_map)
      with len have "\<not> match_over (simulate_srv d ps)"
        by (intro two_alive_not_over [of a _ b]) simp_all
      with ap' Suc show ?thesis by simp
    qed
  qed
qed

lemma interval_tick_room_running:
  "\<not> match_over (simulate_room delta d (players s)) \<Longrightarrow>
    interval_active (tick_room delta d s) = interval_active s"
  by (simp add: tick_room_effect)

lemma closing_room_step:
  assumes "closing_room a b (Suc r) s"
  shows "closing_room a b r (step_room (Timer_room d) s)"
proof (cases "one_down a b (map p_alive (players s))")
  case True
  then show ?thesis by (simp add: closing_room_def one_down_simulate)
next
  case False
  with assms have act: "interval_active s"
    and ap: "approaching a b (8 * real (Suc r)) (Suc r) (players s)"
    and int: "integral (players s ! a)"
    by (simp_all add: closing_room_def)
  from approaching_or_down_room [OF ap int, of d] act show ?thesis
    by (auto simp: closing_room_def interval_tick_room_running)
qed

lemma closing_room_run:
  "closing_room a b (length ds) s \<Longrightarrow> closing_room a b 0 (run_room (map Timer_room ds) s)"
proof (induction ds arbitrary: s)
  case Nil
  then show ?case by simp
next
  case (Cons d ds)
  from Cons.prems have "closing_room a b (length ds) (step_room (Timer_room d) s)"
    by (simp only: list.size) (rule closing_room_step, simp)
  from Cons.IH [OF this] show ?case by simp
qed

lemma alive_flags_tick_srv:
  "alive_flags (m_players (last (emitted (tick_srv d g)))) = map p_alive (simulate_srv d (g_players g))"
  by (simp add: tick_srv_effect alive_flags_def out_player_def comp_def)

lemma closing_srv_step:
  assumes "closing_srv a b (Suc r) g"
  shows "closing_srv a b r (step_srv (Timer_srv d) g)"
proof (cases "gameInterval g")
  case False
  with assms show ?thesis by (simp add: closing_srv_def)
next
  case act: True
  let ?ps = "simulate_srv d (g_players g)"
  have ne: "emitted (tick_srv d g) \<noteq> []"
    by (simp add: tick_srv_effect)
  have running: "g_players (tick_srv d g) = ?ps" if "gameInterval (tick_srv d g)"
    using that by (simp add: tick_srv_effect players_tick_srv match_over_def)
  have shown: "closing_srv a b r (tick_srv d g)" if "one_down a b (map p_alive ?ps)"
  proof -
    from that have "shown_down a b (tick_srv d g)"
      unfolding shown_down_def by (simp only: alive_flags_tick_srv ne not_False_eq_True simp_thms)
    with that running show ?thesis by (auto simp: closing_srv_def)
  qed
  show ?thesis
  proof (cases "one_down a b (map p_alive (g_players g))")
    case True
    then have "one_down a b (map p_alive ?ps)" by (rule one_down_simulate)
    with shown act show ?thesis by simp
  next
    case False
    with assms act have ap: "approaching a b (8 * real (Suc r)) (Suc r) (g_players g)"
      by (simp add: closing_srv_def)
    from approaching_or_down_srv [OF ap, of d] show ?thesis
    proof
      assume "one_down a b (map p_alive ?ps)"
      with shown act show ?thesis by simp
    next
      assume "0 < r \<and> approaching a b (8 * real r) r ?ps \<and> \<not> match_over ?ps"
      with act show ?thesis
        by (simp add: closing_srv_def tick_srv_effect(2) players_tick_srv match_over_def)
    qed
  qed
qed

lemma closing_srv_run:
  "closing_srv a b (length ds) g \<Longrightarrow> closing_srv a b 0 (run_srv (map Timer_srv ds) g)"
proof (induction ds arbitrary: g)
  case Nil
  then show ?case by simp
next
  case (Cons d ds)
  from Cons.prems have "closing_srv a b (length ds) (step_srv (Timer_srv d) g)"
    by (simp only: list.size) (rule closing_srv_step, simp)
  from Cons.IH [OF this] show ?case by simp
qed

lemma floor_cell_near:
  fixes v :: real and a :: int
  assumes "a div 6 = \<lfloor>v / 6\<rfloor>"
  shows "\<bar>v - of_int a\<bar> < 6"
proof -
  define k where "k = a div 6"
  have a: "6 * k \<le> a" "a < 6 * k + 6" unfolding k_def by presburger+
  from assms have "\<lfloor>v / 6\<rfloor> = k" by (simp add: k_def)
  then have "of_int k \<le> v / 6" "v / 6 < of_int k + 1"
    by (simp_all add: floor_eq_iff)
  then have v: "6 * of_int k \<le> v" "v < 6 * of_int k + 6" by simp_all
  from a have "6 * real_of_int k \<le> of_int a" "real_of_int a < 6 * of_int k + 6"
    by (metis of_int_le_iff of_int_mult of_int_numeral,
        metis of_int_less_iff of_int_add of_int_mult of_int_numeral)
  with v show ?thesis by (simp add: abs_less_iff)
qed

lemma same_cell_near6:
  assumes "entry_key t = (\<lfloor>vx / 6\<rfloor>, \<lfloor>vy / 6\<rfloor>)"
  shows "near6 vx vy t"
  using assms by (simp add: entry_key_def near6_def floor_cell_near)

section \<open>Claims\<close>

text \<open>
  Claim C1. A match ends once, at the first tick that finds at most one entity alive:
  that tick emits the terminal snapshot and stops the loop, and nothing non-terminal
  follows. \<^verbatim>\<open>tick\<close> of \<^verbatim>\<open>server.js\<close> does so (\<open>tick_srv_effect\<close>, \<open>run_srv_flags\<close>).
  \<^verbatim>\<open>MatchRoom._tick\<close> emits the terminal snapshot at that tick and then fails to stop the
  loop: its \<^verbatim>\<open>this.clock.clearInterval(this.tickHandler)\<close> throws, the interval stays
  active, the room is neither locked nor scheduled for disposal, and every later firing
  emits a further terminal snapshot. The theorem runs both variants on two players that
  meet at the fifth tick, with seven firings of the timer.
\<close>

theorem room_loop_survives_match_end:
  "fst (tick_room_call TICK_MS no_draws
          (run_room (replicate 4 (Timer_room no_draws)) (sample_room head_on))) = Some TypeError
   \<and> map s_ended (broadcasts (run_room (replicate 7 (Timer_room no_draws)) (sample_room head_on)))
       = [False, False, False, False, True, True, True]
   \<and> interval_active (run_room (replicate 7 (Timer_room no_draws)) (sample_room head_on))
   \<and> \<not> roomLocked (run_room (replicate 7 (Timer_room no_draws)) (sample_room head_on))
   \<and> \<not> dispose_scheduled (run_room (replicate 7 (Timer_room no_draws)) (sample_room head_on))
   \<and> map m_ended (emitted (run_srv (replicate 7 (Timer_srv no_draws)) (sample_server head_on)))
       = [False, False, False, False, True]
   \<and> \<not> gameInterval (run_srv (replicate 7 (Timer_srv no_draws)) (sample_server head_on))"
  by code_simp

text \<open>
  Claim C2. The move-and-clamp step leaves the position inside the play area whatever
  the heading and the position before; hence every entity that a tick moves (the entities
  alive at its start) ends the tick inside the play area, and a tick started with all
  entities inside ends with all entities inside. Both variants.
\<close>

theorem post_tick_position_in_play_area:
  "in_play_area (clamp_room (move_by_dir p)) \<and> in_play_area (clamp_srv (move_by_dir p))
   \<and> (\<forall>i<length ps. p_alive (ps ! i) \<longrightarrow>
        in_play_area (simulate_room delta d ps ! i) \<and> in_play_area (simulate_srv d ps ! i))
   \<and> ((\<forall>q \<in> set (players s). in_play_area q) \<longrightarrow>
        (\<forall>q \<in> set (players (tick_room delta d s)). in_play_area q))
   \<and> ((\<forall>q \<in> set (g_players g). in_play_area q) \<longrightarrow>
        (\<forall>q \<in> set (g_players (tick_srv d g)). in_play_area q))"
proof (intro conjI allI impI)
  show "in_play_area (clamp_room (move_by_dir p))"
    by (rule clamp_room_in_area)
  show "in_play_area (clamp_srv (move_by_dir p))"
    by (simp add: clamp_srv_eq clamp_room_in_area)
next
  fix i assume "i < length ps" "p_alive (ps ! i)"
  then show "in_play_area (simulate_room delta d ps ! i)" "in_play_area (simulate_srv d ps ! i)"
    by (rule simulate_in_area)+
next
  assume "\<forall>q \<in> set (players s). in_play_area q"
  then have "\<forall>q \<in> set (simulate_room delta d (players s)). in_play_area q"
    by (rule simulate_area_inv(1))
  then show "\<forall>q \<in> set (players (tick_room delta d s)). in_play_area q"
    by (simp only: players_tick_room)
next
  assume "\<forall>q \<in> set (g_players g). in_play_area q"
  then have "\<forall>q \<in> set (simulate_srv d (g_players g)). in_play_area q"
    by (rule simulate_area_inv(2))
  then show "\<forall>q \<in> set (g_players (tick_srv d g)). in_play_area q"
    by (simp add: players_tick_srv)
qed

theorem post_tick_position_in_play_area_witness:
  "p_alive ([edge_player, dead_player] ! 0)
   \<and> in_play_area (simulate_room TICK_MS no_draws [edge_player, dead_player] ! 0)
   \<and> in_play_area (simulate_srv no_draws [edge_player, dead_player] ! 0)
   \<and> p_x (simulate_room TICK_MS no_draws [edge_player, dead_player] ! 0) = 1200
   \<and> list_all in_play_area (players (sample_room [edge_player, dead_player]))
   \<and> list_all in_play_area (players (tick_room TICK_MS no_draws (sample_room [edge_player, dead_player])))
   \<and> list_all in_play_area (g_players (sample_server [edge_player, dead_player]))
   \<and> list_all in_play_area (g_players (tick_srv no_draws (sample_server [edge_player, dead_player])))"
proof -
  let ?ps = "[edge_player, dead_player]"
  note inst = post_tick_position_in_play_area
    [of edge_player ?ps TICK_MS no_draws "sample_room ?ps" "sample_server ?ps"]
  have h1: "0 < length ?ps \<and> p_alive (?ps ! 0)" by code_simp
  have h2: "\<forall>q \<in> set (players (sample_room ?ps)). in_play_area q" by code_simp
  have h3: "\<forall>q \<in> set (g_players (sample_server ?ps)). in_play_area q" by code_simp
  have e: "p_x (simulate_room TICK_MS no_draws ?ps ! 0) = 1200" by code_simp
  from inst h1 have c1: "in_play_area (simulate_room TICK_MS no_draws ?ps ! 0)
      \<and> in_play_area (simulate_srv no_draws ?ps ! 0)" by blast
  from inst h2 have c2: "\<forall>q \<in> set (players (tick_room TICK_MS no_draws (sample_room ?ps))). in_play_area q"
    by blast
  from inst h3 have c3: "\<forall>q \<in> set (g_players (tick_srv no_draws (sample_server ?ps))). in_play_area q"
    by blast
  from h1 h2 h3 e c1 c2 c3 show ?thesis by (simp only: list_all_iff)
qed

text \<open>
  Claim C3. In the collision check of both variants the entry at which the scan stops
  and marks the entity not-alive is never one of the entity's own last 10 trail points,
  and an alive entity all of whose matching points are own points among the last 10
  stays alive. An own point with an older index does mark the entity not-alive whenever
  the check matches it: in \<^verbatim>\<open>MatchRoom\<close> when the lookup returns it, that is when it lies in
  the grid cell of the position (which puts it inside the 6-unit box); in \<^verbatim>\<open>server.js\<close>
  when it lies inside the 6-unit box (\<open>|dx| < 6\<close> and \<open>|dy| < 6\<close>).
\<close>

theorem own_recent_trail_never_hits:
  "(scan_hits i vx vy len ts = Some t \<longrightarrow>
      t \<in> set ts \<and> near6 vx vy t \<and> \<not> (e_ownerId t = i \<and> len - 10 \<le> e_idx t))
   \<and> (t \<in> set ts \<and> e_ownerId t = i \<and> e_idx t < len - 10 \<and> near6 vx vy t \<longrightarrow>
        scan_hits i vx vy len ts \<noteq> None)
   \<and> (p_alive (collide_srv trails all p) \<longleftrightarrow>
        p_alive p
        \<and> (\<forall>t \<in> set trails.
              in_grace (p_id p) (length (p_trail p)) t \<or> \<not> near6 (p_x p) (p_y p) t)
        \<and> \<not> out_of_bounds p)
   \<and> (p_alive (collide_room (build_occupancy Map.empty ps) all p) \<longleftrightarrow>
        p_alive p
        \<and> (\<forall>t \<in> set (allTrails ps). entry_key t = (\<lfloor>p_x p / 6\<rfloor>, \<lfloor>p_y p / 6\<rfloor>) \<longrightarrow>
              in_grace (p_id p) (length (p_trail p)) t \<or> \<not> near6 (p_x p) (p_y p) t))
   \<and> (u \<in> set trails \<and> e_ownerId u = p_id p \<and> e_idx u < length (p_trail p) - 10
        \<and> near6 (p_x p) (p_y p) u \<longrightarrow>
        \<not> p_alive (collide_srv trails all p))
   \<and> (u \<in> set (allTrails ps) \<and> entry_key u = (\<lfloor>p_x p / 6\<rfloor>, \<lfloor>p_y p / 6\<rfloor>)
        \<and> e_ownerId u = p_id p \<and> e_idx u < length (p_trail p) - 10 \<longrightarrow>
        \<not> p_alive (collide_room (build_occupancy Map.empty ps) all p))"
proof (intro conjI impI)
  assume "scan_hits i vx vy len ts = Some t"
  from scan_hits_Some [OF this]
  show "t \<in> set ts" "near6 vx vy t" "\<not> (e_ownerId t = i \<and> len - 10 \<le> e_idx t)"
    by (simp_all add: in_grace_def)
next
  assume "t \<in> set ts \<and> e_ownerId t = i \<and> e_idx t < len - 10 \<and> near6 vx vy t"
  then have "t \<in> set ts" and "\<not> in_grace i len t \<and> near6 vx vy t"
    by (simp_all add: in_grace_def)
  then have "\<exists>t \<in> set ts. \<not> in_grace i len t \<and> near6 vx vy t"
    by (rule bexI [rotated])
  then show "scan_hits i vx vy len ts \<noteq> None"
    by (simp only: scan_hits_None) blast
next
  show "p_alive (collide_srv trails all p) \<longleftrightarrow>
        p_alive p
        \<and> (\<forall>t \<in> set trails.
              in_grace (p_id p) (length (p_trail p)) t \<or> \<not> near6 (p_x p) (p_y p) t)
        \<and> \<not> out_of_bounds p"
    by (simp only: alive_collide_srv scan_hits_None)
  show "p_alive (collide_room (build_occupancy Map.empty ps) all p) \<longleftrightarrow>
        p_alive p
        \<and> (\<forall>t \<in> set (allTrails ps). entry_key t = (\<lfloor>p_x p / 6\<rfloor>, \<lfloor>p_y p / 6\<rfloor>) \<longrightarrow>
              in_grace (p_id p) (length (p_trail p)) t \<or> \<not> near6 (p_x p) (p_y p) t)"
    by (simp only: alive_collide_room scan_hits_None bucket_of_build cell_key_def CELL_def) auto
next
  assume "u \<in> set trails \<and> e_ownerId u = p_id p \<and> e_idx u < length (p_trail p) - 10
        \<and> near6 (p_x p) (p_y p) u"
  then have "u \<in> set trails"
    and "\<not> in_grace (p_id p) (length (p_trail p)) u \<and> near6 (p_x p) (p_y p) u"
    by (simp_all add: in_grace_def)
  then have "\<exists>t \<in> set trails. \<not> in_grace (p_id p) (length (p_trail p)) t \<and> near6 (p_x p) (p_y p) t"
    by (rule bexI [rotated])
  then have "scan_hits (p_id p) (p_x p) (p_y p) (length (p_trail p)) trails \<noteq> None"
    by (simp only: scan_hits_None) blast
  then show "\<not> p_alive (collide_srv trails all p)"
    by (simp add: alive_collide_srv)
next
  assume a: "u \<in> set (allTrails ps) \<and> entry_key u = (\<lfloor>p_x p / 6\<rfloor>, \<lfloor>p_y p / 6\<rfloor>)
        \<and> e_ownerId u = p_id p \<and> e_idx u < length (p_trail p) - 10"
  then have "near6 (p_x p) (p_y p) u"
    by (intro same_cell_near6) simp
  with a have "u \<in> set (bucket_of (build_occupancy Map.empty ps) (cell_key (p_x p) (p_y p)))"
    and "\<not> in_grace (p_id p) (length (p_trail p)) u \<and> near6 (p_x p) (p_y p) u"
    by (simp_all add: in_grace_def bucket_of_build cell_key_def CELL_def)
  then have "\<exists>t \<in> set (bucket_of (build_occupancy Map.empty ps) (cell_key (p_x p) (p_y p))).
      \<not> in_grace (p_id p) (length (p_trail p)) t \<and> near6 (p_x p) (p_y p) t"
    by (rule bexI [rotated])
  then have "scan_hits (p_id p) (p_x p) (p_y p) (length (p_trail p))
      (bucket_of (build_occupancy Map.empty ps) (cell_key (p_x p) (p_y p))) \<noteq> None"
    by (simp only: scan_hits_None) blast
  then show "\<not> p_alive (collide_room (build_occupancy Map.empty ps) all p)"
    by (simp add: alive_collide_room)
qed

theorem own_recent_trail_never_hits_witness:
  "scan_hits ''a'' 104 300 11 (allTrails [looped_player])
      = Some \<lparr>e_ownerId = ''a'', e_idx = 0, e_x = 104, e_y = 300\<rparr>
   \<and> \<not> p_alive (collide_srv (allTrails [looped_player]) [looped_player] looped_player)
   \<and> \<not> p_alive (collide_room (build_occupancy Map.empty [looped_player]) [looped_player] looped_player)
   \<and> scan_hits ''a'' 104 300 11 (tl (allTrails [looped_player])) = None
   \<and> p_alive (collide_room (build_occupancy Map.empty [fresh_looped_player]) [fresh_looped_player]
        fresh_looped_player)"
proof -
  let ?t = "\<lparr>e_ownerId = ''a'', e_idx = 0, e_x = 104, e_y = 300\<rparr>"
  let ?ts = "allTrails [looped_player]"
  have h: "?t \<in> set ?ts \<and> e_ownerId ?t = ''a'' \<and> e_idx ?t < 11 - 10 \<and> near6 104 300 ?t"
    by code_simp
  have e: "scan_hits ''a'' 104 300 11 ?ts = Some ?t
      \<and> scan_hits ''a'' 104 300 11 (tl ?ts) = None"
    by code_simp
  have f: "p_id looped_player = ''a'' \<and> p_x looped_player = 104 \<and> p_y looped_player = 300
      \<and> length (p_trail looped_player) = 11 \<and> p_alive looped_player
      \<and> entry_key ?t = (\<lfloor>104 / 6 :: real\<rfloor>, \<lfloor>300 / 6 :: real\<rfloor>)"
    by code_simp
  have g: "p_alive fresh_looped_player
      \<and> list_all (\<lambda>t. in_grace (p_id fresh_looped_player) (length (p_trail fresh_looped_player)) t)
          (allTrails [fresh_looped_player])"
    by code_simp
  note inst = own_recent_trail_never_hits [where i = "''a''" and vx = 104 and vy = 300 and len = 11
      and ts = ?ts and t = ?t and trails = ?ts and all = "[looped_player]" and p = looped_player
      and ps = "[looped_player]" and u = ?t]
  from inst h have a: "scan_hits ''a'' 104 300 11 ?ts \<noteq> None" by blast
  have k: "?t \<in> set ?ts \<and> e_ownerId ?t = p_id looped_player
      \<and> e_idx ?t < length (p_trail looped_player) - 10
      \<and> near6 (p_x looped_player) (p_y looped_player) ?t"
    "?t \<in> set ?ts
      \<and> entry_key ?t = (\<lfloor>p_x looped_player / 6\<rfloor>, \<lfloor>p_y looped_player / 6\<rfloor>)
      \<and> e_ownerId ?t = p_id looped_player
      \<and> e_idx ?t < length (p_trail looped_player) - 10"
    using h f by simp_all
  from inst [THEN conjunct2, THEN conjunct2, THEN conjunct2, THEN conjunct2, THEN conjunct1] k(1)
  have b: "\<not> p_alive (collide_srv ?ts [looped_player] looped_player)"
    by (rule mp)
  from inst [THEN conjunct2, THEN conjunct2, THEN conjunct2, THEN conjunct2, THEN conjunct2] k(2)
  have c: "\<not> p_alive (collide_room (build_occupancy Map.empty [looped_player])
      [looped_player] looped_player)"
    by (rule mp)
  from g have "\<forall>t \<in> set (allTrails [fresh_looped_player]).
      entry_key t = (\<lfloor>p_x fresh_looped_player / 6\<rfloor>, \<lfloor>p_y fresh_looped_player / 6\<rfloor>) \<longrightarrow>
      in_grace (p_id fresh_looped_player) (length (p_trail fresh_looped_player)) t
      \<or> \<not> near6 (p_x fresh_looped_player) (p_y fresh_looped_player) t"
    by (simp add: list_all_iff)
  with own_recent_trail_never_hits [where p = fresh_looped_player and ps = "[fresh_looped_player]"
      and all = "[fresh_looped_player]", THEN conjunct2, THEN conjunct2, THEN conjunct2, THEN conjunct1] g
  have d: "p_alive (collide_room (build_occupancy Map.empty [fresh_looped_player])
      [fresh_looped_player] fresh_looped_player)"
    by blast
  from a b c d e show ?thesis by (simp only: simp_thms)
qed

text \<open>
  Claim C4. An entity whose alive flag is false at the start of a tick is left as it is
  by that tick: its position, its trail and its alive flag (indeed the whole object) are
  the same afterwards, in \<^verbatim>\<open>MatchRoom._tick\<close> and in \<^verbatim>\<open>tick\<close> of \<^verbatim>\<open>server.js\<close>. The one
  thing \<^verbatim>\<open>tick\<close> of \<^verbatim>\<open>server.js\<close> may do to such an entity is to delete it from \<^verbatim>\<open>players\<close>
  when this tick ends the match and the entity is a bot (its id starts with \<^verbatim>\<open>bot_\<close>).
\<close>

theorem dead_entity_untouched_by_tick:
  assumes "lookup k ps = Some p" and "\<not> p_alive p"
  shows "lookup k (simulate_room delta d ps) = Some p
     \<and> lookup k (simulate_srv d ps) = Some p
     \<and> (players s = ps \<longrightarrow> lookup k (players (tick_room delta d s)) = Some p)
     \<and> (g_players g = ps \<longrightarrow>
          lookup k (g_players (tick_srv d g)) =
            (if is_bot_id k \<and> length (filter p_alive (simulate_srv d ps)) \<le> 1 then None else Some p))"
  using lookup_frozen [OF simulate_frozen(1) assms, of delta d]
    lookup_frozen [OF simulate_frozen(2) assms, of d]
  by (simp add: players_tick_srv lookup_filter_bots)

theorem dead_entity_untouched_by_tick_witness:
  "lookup ''b'' [edge_player, dead_player] = Some dead_player \<and> \<not> p_alive dead_player
   \<and> lookup ''b'' (simulate_room TICK_MS no_draws [edge_player, dead_player]) = Some dead_player
   \<and> lookup ''b'' (simulate_srv no_draws [edge_player, dead_player]) = Some dead_player
   \<and> lookup ''b'' (players (tick_room TICK_MS no_draws (sample_room [edge_player, dead_player])))
       = Some dead_player
   \<and> lookup ''b'' (g_players (tick_srv no_draws (sample_server [edge_player, dead_player])))
       = Some dead_player"
proof -
  let ?ps = "[edge_player, dead_player]"
  have h1: "lookup ''b'' ?ps = Some dead_player" by code_simp
  have h2: "\<not> p_alive dead_player" by code_simp
  note h = h1 h2
  have r: "players (sample_room ?ps) = ?ps \<and> g_players (sample_server ?ps) = ?ps
    \<and> \<not> is_bot_id ''b''" by code_simp
  from dead_entity_untouched_by_tick [OF h, where delta = TICK_MS and d = no_draws
      and s = "sample_room ?ps" and g = "sample_server ?ps"]
    h r show ?thesis by simp
qed

text \<open>
  Claim C5. The movement step of a tick clamps the position to the play area and leaves
  the alive flag as it is (both variants); the collision loop of \<^verbatim>\<open>tick\<close> in \<^verbatim>\<open>server.js\<close>
  then marks every entity not-alive whose position has \<open>x \<le> 0\<close>, \<open>x \<ge> 1200\<close>, \<open>y \<le> 0\<close> or
  \<open>y \<ge> 800\<close>, so that no entity is alive on the boundary after that tick.
\<close>

theorem boundary_clamped_then_lethal:
  "p_alive (move_player_srv d all p) = p_alive p
   \<and> p_alive (move_player_room delta d all p) = p_alive p
   \<and> (p_alive p \<longrightarrow>
        in_play_area (move_player_srv d all p) \<and> in_play_area (move_player_room delta d all p))
   \<and> (out_of_bounds q \<longleftrightarrow> p_x q \<le> 0 \<or> p_x q \<ge> 1200 \<or> p_y q \<le> 0 \<or> p_y q \<ge> 800)
   \<and> (out_of_bounds q \<longrightarrow> \<not> p_alive (collide_srv trails all q))
   \<and> (i < length ps \<and> out_of_bounds (simulate_srv d ps ! i) \<longrightarrow>
        \<not> p_alive (simulate_srv d ps ! i))"
  by (simp add: move_player_srv_in_area move_player_room_in_area alive_collide_srv
      alive_simulate_srv_boundary)
    (simp add: out_of_bounds_def PLAY_AREA_w_def PLAY_AREA_h_def)

theorem boundary_clamped_then_lethal_witness:
  "p_alive edge_player
   \<and> p_x (move_player_srv no_draws [edge_player] edge_player) = 1200
   \<and> p_alive (move_player_srv no_draws [edge_player] edge_player)
   \<and> in_play_area (move_player_srv no_draws [edge_player] edge_player)
   \<and> in_play_area (move_player_room TICK_MS no_draws [edge_player] edge_player)
   \<and> out_of_bounds (simulate_srv no_draws [edge_player] ! 0)
   \<and> \<not> p_alive (simulate_srv no_draws [edge_player] ! 0)
   \<and> p_alive (simulate_room TICK_MS no_draws [edge_player] ! 0)"
proof -
  have h: "p_alive edge_player \<and> 0 < length [edge_player]
      \<and> out_of_bounds (simulate_srv no_draws [edge_player] ! 0)"
    by code_simp
  have e: "p_x (move_player_srv no_draws [edge_player] edge_player) = 1200
      \<and> p_alive (simulate_room TICK_MS no_draws [edge_player] ! 0)"
    by code_simp
  note inst = boundary_clamped_then_lethal [where d = no_draws and all = "[edge_player]"
      and p = edge_player and delta = TICK_MS and q = "simulate_srv no_draws [edge_player] ! 0"
      and i = 0 and ps = "[edge_player]"]
  from inst h have a: "p_alive (move_player_srv no_draws [edge_player] edge_player)"
    and b: "in_play_area (move_player_srv no_draws [edge_player] edge_player)
      \<and> in_play_area (move_player_room TICK_MS no_draws [edge_player] edge_player)"
    and c: "\<not> p_alive (simulate_srv no_draws [edge_player] ! 0)"
    by blast+
  from a b c h e show ?thesis by (simp only: simp_thms)
qed

text \<open>
  Claim C6, as amended. In \<^verbatim>\<open>MatchRoom._tick\<close> an alive bot whose countdown, advanced by
  the tick period, exceeds its interval takes the first of: its current heading, then
  the remaining cardinals in the order up, down, left, right, whose projected position
  stays inside the play area and has no dangerous trail match; its heading is unchanged if
  no candidate qualifies, and also if the countdown does not exceed the interval. The bot
  of \<^verbatim>\<open>server.js\<close> instead takes a random cardinal when the draw is below 0.7 and heads for
  the horizontal centre otherwise, with no safety check; the counterexample shows it
  leaving a heading that qualifies.
\<close>

theorem bot_redecision_room:
  assumes "p_alive p" and "p_isBot p"
  shows "p_dir (move_player_room delta d all p) =
      (if p_lastDecision p + delta > p_decisionCooldown p then redecide_spec all p else p_dir p)
    \<and> p_dir (move_player_srv d all p) =
      (if p_lastDecision p + TICK_MS > p_decisionCooldown p
       then (if d (p_id p) 1 < 7 / 10 then cardinal_at (randInt (d (p_id p) 2) 0 3)
             else if p_x p > 600 then ''left'' else ''right'')
       else p_dir p)"
  using assms
  by (simp add: move_player_room_def move_player_srv_def bot_decide_room_dir clamp_srv_eq
      bot_decide_srv_def Let_def PLAY_AREA_w_def)

theorem bot_redecision_room_witness:
  "p_alive wandering_bot \<and> p_isBot wandering_bot
   \<and> p_lastDecision wandering_bot + TICK_MS > p_decisionCooldown wandering_bot
   \<and> redecide_spec [wandering_bot, wall_player [\<lparr>t_x = 304, t_y = 400\<rparr>]] wandering_bot = ''left''
   \<and> p_dir (move_player_room TICK_MS no_draws [wandering_bot, wall_player [\<lparr>t_x = 304, t_y = 400\<rparr>]]
        wandering_bot) = ''left''"
proof -
  let ?all = "[wandering_bot, wall_player [\<lparr>t_x = 304, t_y = 400\<rparr>]]"
  have h1: "p_alive wandering_bot" by code_simp
  have h2: "p_isBot wandering_bot" by code_simp
  have e: "p_lastDecision wandering_bot + TICK_MS > p_decisionCooldown wandering_bot
    \<and> redecide_spec ?all wandering_bot = ''left''" by code_simp
  from bot_redecision_room [OF h1 h2, of TICK_MS no_draws ?all] h1 h2 e show ?thesis by simp
qed

theorem bot_redecision_srv_counterexample:
  "p_alive wandering_bot \<and> p_isBot wandering_bot
   \<and> p_lastDecision wandering_bot + TICK_MS > p_decisionCooldown wandering_bot
   \<and> redecide_spec [wandering_bot] wandering_bot = ''right''
   \<and> p_dir (move_player_srv no_draws [wandering_bot] wandering_bot) = ''up''"
  by code_simp

text \<open>
  Claim C7. The \<^verbatim>\<open>'turn'\<close> handler of \<^verbatim>\<open>server.js\<close> assigns the direction of the message to
  the heading of the issuing entity exactly when that entity exists, is alive and the
  direction is one of the four cardinals; it touches nothing else, and when the entity is
  missing or not alive or the direction is not a cardinal the state stays as it is.
  (\<^verbatim>\<open>MatchRoom\<close> registers no message handler, so there no message changes a heading.)
\<close>

theorem turn_applied_only_to_live_entity:
  "lookup i (g_players (on_turn i dir s)) =
     (case lookup i (g_players s) of
        None \<Rightarrow> None
      | Some p \<Rightarrow> Some (if p_alive p \<and> dir \<in> set cardinals then p\<lparr>p_dir := dir\<rparr> else p))
   \<and> (j \<noteq> i \<longrightarrow> lookup j (g_players (on_turn i dir s)) = lookup j (g_players s))
   \<and> ((\<forall>p. lookup i (g_players s) = Some p \<longrightarrow> \<not> p_alive p) \<or> dir \<notin> set cardinals
        \<longrightarrow> on_turn i dir s = s)
   \<and> on_turn i dir s = s\<lparr>g_players := g_players (on_turn i dir s)\<rparr>"
  by (auto simp: on_turn_def lookup_modify split: option.splits)

theorem turn_applied_only_to_live_entity_witness:
  "lookup ''a'' (g_players (on_turn ''a'' ''up'' (sample_server [edge_player, dead_player])))
      = Some (edge_player\<lparr>p_dir := ''up''\<rparr>)
   \<and> lookup ''b'' (g_players (on_turn ''a'' ''up'' (sample_server [edge_player, dead_player])))
      = Some dead_player
   \<and> on_turn ''b'' ''up'' (sample_server [edge_player, dead_player])
      = sample_server [edge_player, dead_player]
   \<and> on_turn ''a'' ''north'' (sample_server [edge_player, dead_player])
      = sample_server [edge_player, dead_player]"
proof -
  let ?s = "sample_server [edge_player, dead_player]"
  have l: "lookup ''a'' (g_players ?s) = Some edge_player \<and> lookup ''b'' (g_players ?s) = Some dead_player
    \<and> p_alive edge_player \<and> \<not> p_alive dead_player \<and> ''up'' \<in> set cardinals \<and> ''north'' \<notin> set cardinals
    \<and> ''b'' \<noteq> ''a''"
    by code_simp
  from turn_applied_only_to_live_entity [of "''a''" "''up''" ?s "''b''"] l
  have a: "lookup ''a'' (g_players (on_turn ''a'' ''up'' ?s)) = Some (edge_player\<lparr>p_dir := ''up''\<rparr>)"
    and b: "lookup ''b'' (g_players (on_turn ''a'' ''up'' ?s)) = Some dead_player"
    by simp_all
  from turn_applied_only_to_live_entity [of "''b''" "''up''" ?s] l
  have c: "on_turn ''b'' ''up'' ?s = ?s" by simp
  from turn_applied_only_to_live_entity [of "''a''" "''north''" ?s] l
  have d: "on_turn ''a'' ''north'' ?s = ?s" by blast
  from a b c d show ?thesis by blast
qed

text \<open>
  Claim C8. The trail index of \<^verbatim>\<open>MatchRoom._tick\<close> files every trail point of every entity
  under the cell key obtained by integer-dividing each axis by 6: the bucket of a key
  holds exactly the trail points (of all entities, in dictionary and trail order) with
  that key, and a key with no such point is absent. The collision lookup for an entity
  reads the bucket of the key of its position, so it scans exactly the indexed points in
  the cell of the position.
\<close>

theorem trail_index_same_cell_lookup:
  "cell_key vx vy = (\<lfloor>vx / 6\<rfloor>, \<lfloor>vy / 6\<rfloor>)
   \<and> build_occupancy Map.empty ps k =
       (if filter (\<lambda>e. entry_key e = k) (allTrails ps) = [] then None
        else Some (filter (\<lambda>e. entry_key e = k) (allTrails ps)))
   \<and> set (allTrails ps) =
       (\<Union>p \<in> set ps. (\<lambda>j. \<lparr>e_ownerId = p_id p, e_idx = j, e_x = t_x (p_trail p ! j),
          e_y = t_y (p_trail p ! j)\<rparr>) ` {..<length (p_trail p)})
   \<and> (\<forall>p \<in> set ps. \<forall>j < length (p_trail p).
        \<lparr>e_ownerId = p_id p, e_idx = j, e_x = t_x (p_trail p ! j), e_y = t_y (p_trail p ! j)\<rparr>
          \<in> set (bucket_of (build_occupancy Map.empty ps)
                (t_x (p_trail p ! j) div 6, t_y (p_trail p ! j) div 6)))
   \<and> collide_room (build_occupancy Map.empty ps) all p =
       (if \<not> p_alive p then p
        else case scan_hits (p_id p) (p_x p) (p_y p) (length (p_trail p))
               (filter (\<lambda>e. entry_key e = (\<lfloor>p_x p / 6\<rfloor>, \<lfloor>p_y p / 6\<rfloor>)) (allTrails ps)) of
          None \<Rightarrow> p
        | Some t \<Rightarrow> kill all t p)"
proof (intro conjI ballI allI impI)
  show "cell_key vx vy = (\<lfloor>vx / 6\<rfloor>, \<lfloor>vy / 6\<rfloor>)"
    by (simp add: cell_key_def CELL_def)
  show "build_occupancy Map.empty ps k =
       (if filter (\<lambda>e. entry_key e = k) (allTrails ps) = [] then None
        else Some (filter (\<lambda>e. entry_key e = k) (allTrails ps)))"
    by (rule build_occupancy_empty)
  show "set (allTrails ps) =
       (\<Union>p \<in> set ps. (\<lambda>j. \<lparr>e_ownerId = p_id p, e_idx = j, e_x = t_x (p_trail p ! j),
          e_y = t_y (p_trail p ! j)\<rparr>) ` {..<length (p_trail p)})"
    by (rule set_allTrails)
  show "collide_room (build_occupancy Map.empty ps) all p =
       (if \<not> p_alive p then p
        else case scan_hits (p_id p) (p_x p) (p_y p) (length (p_trail p))
               (filter (\<lambda>e. entry_key e = (\<lfloor>p_x p / 6\<rfloor>, \<lfloor>p_y p / 6\<rfloor>)) (allTrails ps)) of
          None \<Rightarrow> p
        | Some t \<Rightarrow> kill all t p)"
    by (simp only: collide_room_bucket bucket_of_build cell_key_def CELL_def)
next
  fix q j assume q: "q \<in> set ps" and j: "j < length (p_trail q)"
  let ?e = "\<lparr>e_ownerId = p_id q, e_idx = j, e_x = t_x (p_trail q ! j), e_y = t_y (p_trail q ! j)\<rparr>"
  from q j have "?e \<in> set (allTrails ps)"
    by (simp only: set_allTrails) blast
  then show "?e \<in> set (bucket_of (build_occupancy Map.empty ps)
                (t_x (p_trail q ! j) div 6, t_y (p_trail q ! j) div 6))"
    by (simp add: bucket_of_build entry_key_def)
qed

theorem trail_index_same_cell_lookup_witness:
  "build_occupancy Map.empty trail_of_two (17, 50) =
      Some [\<lparr>e_ownerId = ''a'', e_idx = 0, e_x = 104, e_y = 300\<rparr>]
   \<and> build_occupancy Map.empty trail_of_two (18, 50) =
      Some [\<lparr>e_ownerId = ''a'', e_idx = 1, e_x = 108, e_y = 300\<rparr>]
   \<and> build_occupancy Map.empty trail_of_two (0, 0) = None
   \<and> trail_of_two ! 0 \<in> set trail_of_two \<and> 1 < length (p_trail (trail_of_two ! 0))
   \<and> \<lparr>e_ownerId = ''a'', e_idx = 1, e_x = 108, e_y = 300\<rparr>
        \<in> set (bucket_of (build_occupancy Map.empty trail_of_two) (18, 50))"
proof -
  let ?p = "trail_of_two ! 0"
  have f: "filter (\<lambda>e. entry_key e = (17, 50)) (allTrails trail_of_two)
        = [\<lparr>e_ownerId = ''a'', e_idx = 0, e_x = 104, e_y = 300\<rparr>]
      \<and> filter (\<lambda>e. entry_key e = (18, 50)) (allTrails trail_of_two)
        = [\<lparr>e_ownerId = ''a'', e_idx = 1, e_x = 108, e_y = 300\<rparr>]
      \<and> filter (\<lambda>e. entry_key e = (0, 0)) (allTrails trail_of_two) = []"
    by code_simp
  have h: "?p \<in> set trail_of_two \<and> 1 < length (p_trail ?p)" by code_simp
  have v: "p_id ?p = ''a'' \<and> t_x (p_trail ?p ! 1) = 108 \<and> t_y (p_trail ?p ! 1) = 300"
    by code_simp
  note inst = trail_index_same_cell_lookup [of _ _ trail_of_two]
  from inst [of _ _ "(17, 50)"] f
  have a: "build_occupancy Map.empty trail_of_two (17, 50) =
      Some [\<lparr>e_ownerId = ''a'', e_idx = 0, e_x = 104, e_y = 300\<rparr>]" by simp
  from inst [of _ _ "(18, 50)"] f
  have b: "build_occupancy Map.empty trail_of_two (18, 50) =
      Some [\<lparr>e_ownerId = ''a'', e_idx = 1, e_x = 108, e_y = 300\<rparr>]" by simp
  from inst [of _ _ "(0, 0)"] f
  have c: "build_occupancy Map.empty trail_of_two (0, 0) = None" by simp
  from inst [of 0 0 "(0, 0)"] h
  have "\<lparr>e_ownerId = p_id ?p, e_idx = 1, e_x = t_x (p_trail ?p ! 1), e_y = t_y (p_trail ?p ! 1)\<rparr>
          \<in> set (bucket_of (build_occupancy Map.empty trail_of_two)
                (t_x (p_trail ?p ! 1) div 6, t_y (p_trail ?p ! 1) div 6))"
    by blast
  with v have d: "\<lparr>e_ownerId = ''a'', e_idx = 1, e_x = 108, e_y = 300\<rparr>
        \<in> set (bucket_of (build_occupancy Map.empty trail_of_two) (18, 50))"
    by simp
  from a b c d h show ?thesis by (simp only: simp_thms)
qed

text \<open>
  Claim C9. Two distinct entities on the same row of the play area, 40 units apart,
  heading for each other and keeping their headings: after five timer firings at least
  one of the two is marked not-alive. In \<^verbatim>\<open>MatchRoom\<close> (positions are integers there) this
  is read off the players after the run; in \<^verbatim>\<open>server.js\<close>, which deletes its bots when
  the match ends, off the last \<^verbatim>\<open>'state'\<close> message emitted. The other entities, their
  trails and all random draws are arbitrary.
\<close>

theorem head_on_collision_within_five_ticks:
  assumes "length ds = 5"
    and "interval_active s" and "approaching a b 40 5 (players s)" and "integral (players s ! a)"
    and "gameInterval g" and "approaching a b 40 5 (g_players g)"
  shows "one_down a b (map p_alive (players (run_room (map Timer_room ds) s)))
    \<and> emitted (run_srv (map Timer_srv ds) g) \<noteq> []
    \<and> one_down a b (alive_flags (m_players (last (emitted (run_srv (map Timer_srv ds) g)))))"
proof -
  from assms have "closing_room a b (length ds) s"
    by (simp add: closing_room_def)
  from closing_room_run [OF this]
  have r: "one_down a b (map p_alive (players (run_room (map Timer_room ds) s)))"
    by (simp add: closing_room_def)
  from assms have "closing_srv a b (length ds) g"
    by (simp add: closing_srv_def)
  from closing_srv_run [OF this]
  have "shown_down a b (run_srv (map Timer_srv ds) g)"
    by (simp add: closing_srv_def)
  with r show ?thesis by (simp add: shown_down_def)
qed

theorem head_on_collision_within_five_ticks_witness:
  "length (replicate 5 no_draws) = 5
   \<and> interval_active (sample_room head_on) \<and> approaching 0 1 40 5 (players (sample_room head_on))
   \<and> integral (players (sample_room head_on) ! 0)
   \<and> gameInterval (sample_server head_on) \<and> approaching 0 1 40 5 (g_players (sample_server head_on))
   \<and> one_down 0 1 (map p_alive (players (run_room (map Timer_room (replicate 5 no_draws))
        (sample_room head_on))))
   \<and> one_down 0 1 (alive_flags (m_players (last (emitted (run_srv (map Timer_srv
        (replicate 5 no_draws)) (sample_server head_on))))))
   \<and> map p_alive (players (run_room (map Timer_room (replicate 4 no_draws)) (sample_room head_on)))
       = [True, True]
   \<and> map p_alive (players (run_room (map Timer_room (replicate 5 no_draws)) (sample_room head_on)))
       = [False, False]"
proof -
  have h1: "length (replicate 5 no_draws) = 5" by simp
  have h2: "interval_active (sample_room head_on)" by code_simp
  have h3: "approaching 0 1 40 5 (players (sample_room head_on))" by code_simp
  have h4: "integral (players (sample_room head_on) ! 0)"
    by (simp add: integral_def sample_room_def head_on_def new_player_def)
  have h5: "gameInterval (sample_server head_on)" by code_simp
  have h6: "approaching 0 1 40 5 (g_players (sample_server head_on))" by code_simp
  have e: "map p_alive (players (run_room (map Timer_room (replicate 4 no_draws)) (sample_room head_on)))
       = [True, True]
    \<and> map p_alive (players (run_room (map Timer_room (replicate 5 no_draws)) (sample_room head_on)))
       = [False, False]" by code_simp
  from head_on_collision_within_five_ticks [OF h1 h2 h3 h4 h5 h6] h1 h2 h3 h4 h5 h6 e
  show ?thesis by (simp only: simp_thms)
qed

text \<open>
  Claim C10. In the bot re-decision of \<^verbatim>\<open>MatchRoom._tick\<close> a projected position is
  dangerous exactly when some trail point at an index divisible by 4 lies within the
  8-unit box around it (\<open>|dx| < 8\<close> and \<open>|dy| < 8\<close>), the bot's own last 10 trail points
  excepted; trail points at other indices have no influence on the danger flag, on the
  chosen direction or on the bot after the decision.
\<close>

theorem danger_check_samples_every_fourth_point:
  "players_danger nx ny i ps = dangerous_spec nx ny i ps
   \<and> (same_sampled ps qs \<longrightarrow>
        players_danger nx ny i ps = players_danger nx ny i qs
        \<and> choose_dir ps p ds = choose_dir qs p ds
        \<and> bot_decide_room delta u ps p = bot_decide_room delta u qs p)"
proof (intro conjI impI)
  show "players_danger nx ny i ps = dangerous_spec nx ny i ps"
    by (rule players_danger_iff)
next
  assume s: "same_sampled ps qs"
  then show "players_danger nx ny i ps = players_danger nx ny i qs"
    by (rule players_danger_sampled)
  from s show "choose_dir ps p ds = choose_dir qs p ds"
    by (rule choose_dir_sampled)
  from s show "bot_decide_room delta u ps p = bot_decide_room delta u qs p"
    by (simp add: bot_decide_room_def Let_def choose_dir_sampled)
qed

theorem danger_check_samples_every_fourth_point_witness:
  "dangerous_spec 304 400 ''bot_1'' [wandering_bot, wall_player [\<lparr>t_x = 304, t_y = 400\<rparr>]]
   \<and> players_danger 304 400 ''bot_1'' [wandering_bot, wall_player [\<lparr>t_x = 304, t_y = 400\<rparr>]]
   \<and> same_sampled
        [wandering_bot, wall_player [\<lparr>t_x = 700, t_y = 496\<rparr>, \<lparr>t_x = 304, t_y = 400\<rparr>]]
        [wandering_bot, wall_player [\<lparr>t_x = 700, t_y = 496\<rparr>, \<lparr>t_x = 700, t_y = 500\<rparr>]]
   \<and> players_danger 304 400 ''bot_1''
        [wandering_bot, wall_player [\<lparr>t_x = 700, t_y = 496\<rparr>, \<lparr>t_x = 304, t_y = 400\<rparr>]]
     = players_danger 304 400 ''bot_1''
        [wandering_bot, wall_player [\<lparr>t_x = 700, t_y = 496\<rparr>, \<lparr>t_x = 700, t_y = 500\<rparr>]]
   \<and> players_danger 304 400 ''bot_1''
        [wandering_bot, wall_player [\<lparr>t_x = 700, t_y = 496\<rparr>, \<lparr>t_x = 304, t_y = 400\<rparr>]] = False
   \<and> scan_hits ''bot_1'' 304 400 1
        (allTrails [wandering_bot, wall_player [\<lparr>t_x = 700, t_y = 496\<rparr>, \<lparr>t_x = 304, t_y = 400\<rparr>]])
     = Some \<lparr>e_ownerId = ''w'', e_idx = 1, e_x = 304, e_y = 400\<rparr>"
proof -
  let ?ps1 = "[wandering_bot, wall_player [\<lparr>t_x = 304, t_y = 400\<rparr>]]"
  let ?ps = "[wandering_bot, wall_player [\<lparr>t_x = 700, t_y = 496\<rparr>, \<lparr>t_x = 304, t_y = 400\<rparr>]]"
  let ?qs = "[wandering_bot, wall_player [\<lparr>t_x = 700, t_y = 496\<rparr>, \<lparr>t_x = 700, t_y = 500\<rparr>]]"
  have a: "dangerous_spec 304 400 ''bot_1'' ?ps1" by code_simp
  have b: "same_sampled ?ps ?qs" by code_simp
  have c: "players_danger 304 400 ''bot_1'' ?qs = False" by code_simp
  have d: "scan_hits ''bot_1'' 304 400 1 (allTrails ?ps)
     = Some \<lparr>e_ownerId = ''w'', e_idx = 1, e_x = 304, e_y = 400\<rparr>" by code_simp
  from danger_check_samples_every_fourth_point [of 304 400 "''bot_1''" ?ps1] a
  have a': "players_danger 304 400 ''bot_1'' ?ps1" by blast
  from danger_check_samples_every_fourth_point [of 304 400 "''bot_1''" ?ps ?qs] b
  have b': "players_danger 304 400 ''bot_1'' ?ps = players_danger 304 400 ''bot_1'' ?qs" by blast
  from a a' b b' c d show ?thesis by (simp only: simp_thms)
qed

end
